theory Spec2Isabelle
  imports Main "HOL-Library.Sublist"
begin

section \<open>Python values used by the scripts\<close>

text \<open>
  Strings are lists of characters; a character stands for a code point below 256.
  Exceptions are values of the type \<open>error\<close>; a function that can raise returns
  \<open>error + 'a\<close> with \<open>Inl\<close> for the exception.
\<close>

datatype error =
    ValueError string
  | OverflowError
  | AttributeError
  | FileNotFoundError string
  | ZoneInfoNotFoundError string
  | ProgrammingError

subsection \<open>\<open>str\<close> methods\<close>

definition code_point :: "char \<Rightarrow> nat" where
  "code_point c = of_char c"

text \<open>\<open>str.isspace\<close> on one character; the class \<open>\s\<close> of \<open>re\<close> is the same
  set.\<close>

definition py_isspace :: "char \<Rightarrow> bool" where
  "py_isspace c =
     (let n = code_point c
      in (9 \<le> n \<and> n \<le> 13) \<or> (28 \<le> n \<and> n \<le> 32) \<or> n = 133 \<or> n = 160)"

definition is_digit :: "char \<Rightarrow> bool" where
  "is_digit c = (let n = code_point c in 48 \<le> n \<and> n \<le> 57)"

definition digit_val :: "char \<Rightarrow> int" where
  "digit_val c = int (code_point c) - 48"

definition py_lower_char :: "char \<Rightarrow> char" where
  "py_lower_char c =
     (let n = code_point c
      in if (65 \<le> n \<and> n \<le> 90) \<or> (192 \<le> n \<and> n \<le> 222 \<and> n \<noteq> 215)
         then char_of (n + 32) else c)"

definition py_lower :: "string \<Rightarrow> string" where
  "py_lower s = map py_lower_char s"

definition py_lstrip :: "string \<Rightarrow> string" where
  "py_lstrip s = dropWhile py_isspace s"

definition py_rstrip :: "string \<Rightarrow> string" where
  "py_rstrip s = rev (dropWhile py_isspace (rev s))"

definition py_strip :: "string \<Rightarrow> string" where
  "py_strip s = py_rstrip (py_lstrip s)"

text \<open>\<open>s.rstrip(':')\<close>\<close>

definition rstrip_char :: "char \<Rightarrow> string \<Rightarrow> string" where
  "rstrip_char c s = rev (dropWhile (\<lambda>x. x = c) (rev s))"

text \<open>\<open>s.split(c)\<close> for a one-character separator: never an empty list.\<close>

fun split_on :: "char \<Rightarrow> string \<Rightarrow> string list" where
  "split_on c [] = [[]]"
| "split_on c (x # xs) =
     (if x = c then [] # split_on c xs
      else (case split_on c xs of
              [] \<Rightarrow> [[x]]
            | w # ws \<Rightarrow> (x # w) # ws))"

text \<open>\<open>s.split(c, 1)\<close>: at most one split, at the first separator.\<close>

definition split_once :: "char \<Rightarrow> string \<Rightarrow> string list" where
  "split_once c s =
     (if c \<in> set s then [takeWhile (\<lambda>x. x \<noteq> c) s, tl (dropWhile (\<lambda>x. x \<noteq> c) s)]
      else [s])"

text \<open>\<open>sep in s\<close> and \<open>s.split(sep)[0]\<close> for a non-empty separator \<open>sep\<close>.\<close>

fun contains :: "string \<Rightarrow> string \<Rightarrow> bool" where
  "contains sep [] = (sep = [])"
| "contains sep (x # xs) = (prefix sep (x # xs) \<or> contains sep xs)"

fun split_head :: "string \<Rightarrow> string \<Rightarrow> string" where
  "split_head sep [] = []"
| "split_head sep (x # xs) = (if prefix sep (x # xs) then [] else x # split_head sep xs)"

subsection \<open>\<open>int(str)\<close>\<close>

text \<open>
  The blanks that \<open>int()\<close> strips: the six ASCII blanks, and the two other blanks
  below 256, which the conversion turns into spaces. The separators \<open>U+001C\<close> to
  \<open>U+001F\<close>, which \<open>str.isspace\<close> accepts, are not among them.
\<close>

definition int_isspace :: "char \<Rightarrow> bool" where
  "int_isspace c =
     (let n = code_point c
      in (9 \<le> n \<and> n \<le> 13) \<or> n = 32 \<or> n = 133 \<or> n = 160)"

definition int_strip :: "string \<Rightarrow> string" where
  "int_strip s = rev (dropWhile int_isspace (rev (dropWhile int_isspace s)))"

text \<open>The interpreter's limit on the number of digits of a decimal literal
  (\<open>sys.get_int_max_str_digits()\<close>), at its default.\<close>

definition int_max_str_digits :: nat where
  "int_max_str_digits = 4300"

text \<open>
  \<open>int(s)\<close> in base 10: blanks around the literal are stripped, one sign is allowed,
  single underscores may separate digits, and the literal has no more digits than the
  limit. \<open>None\<close> stands for the \<open>ValueError\<close> of an invalid or too long literal.
\<close>

fun digits_value :: "int \<Rightarrow> string \<Rightarrow> int option" where
  "digits_value acc [] = Some acc"
| "digits_value acc [c] = (if is_digit c then Some (acc * 10 + digit_val c) else None)"
| "digits_value acc (c # d # cs) =
     (if is_digit c then
        (if d = CHR ''_'' then
           (case cs of
              [] \<Rightarrow> None
            | e # es \<Rightarrow> if is_digit e then digits_value (acc * 10 + digit_val c) cs else None)
         else digits_value (acc * 10 + digit_val c) (d # cs))
      else None)"

definition literal_value :: "string \<Rightarrow> int option" where
  "literal_value ds =
     (if ds = [] \<or> int_max_str_digits < length (filter is_digit ds) then None
      else digits_value 0 ds)"

definition py_int :: "string \<Rightarrow> int option" where
  "py_int s =
     (case int_strip s of
        [] \<Rightarrow> None
      | c # cs \<Rightarrow>
          if c = CHR ''+'' then literal_value cs
          else if c = CHR ''-'' then map_option uminus (literal_value cs)
          else literal_value (c # cs))"

section \<open>The \<open>datetime\<close> module\<close>

subsection \<open>Proleptic Gregorian calendar\<close>

definition MINYEAR :: int where "MINYEAR = 1"
definition MAXYEAR :: int where "MAXYEAR = 9999"
definition MAXORDINAL :: int where "MAXORDINAL = 3652059"

definition DAYS_IN_MONTH :: "int list" where
  "DAYS_IN_MONTH = [-1, 31, 28, 31, 30, 31, 30, 31, 31, 30, 31, 30, 31]"

definition DAYS_BEFORE_MONTH :: "int list" where
  "DAYS_BEFORE_MONTH = [-1, 0, 31, 59, 90, 120, 151, 181, 212, 243, 273, 304, 334]"

definition is_leap :: "int \<Rightarrow> bool" where
  "is_leap year = (year mod 4 = 0 \<and> (year mod 100 \<noteq> 0 \<or> year mod 400 = 0))"

definition days_before_year :: "int \<Rightarrow> int" where
  "days_before_year year = (let y = year - 1 in y * 365 + y div 4 - y div 100 + y div 400)"

definition days_in_month :: "int \<Rightarrow> int \<Rightarrow> int" where
  "days_in_month year month =
     (if month = 2 \<and> is_leap year then 29 else DAYS_IN_MONTH ! nat month)"

definition days_before_month :: "int \<Rightarrow> int \<Rightarrow> int" where
  "days_before_month year month =
     DAYS_BEFORE_MONTH ! nat month + (if month > 2 \<and> is_leap year then 1 else 0)"

definition ymd2ord :: "int \<Rightarrow> int \<Rightarrow> int \<Rightarrow> int" where
  "ymd2ord year month day = days_before_year year + days_before_month year month + day"

definition DI400Y :: int where "DI400Y = 146097"
definition DI100Y :: int where "DI100Y = 36524"
definition DI4Y :: int where "DI4Y = 1461"

text \<open>The last step of \<open>_ord2ymd\<close>: the month of the \<open>n\<close>-th day (from 0) of a
  year, by an estimate that is exact or one too large, and the days before that month.\<close>

definition month_of_yday :: "int \<Rightarrow> bool \<Rightarrow> int \<times> int" where
  "month_of_yday n leapyear =
     (let month = (n + 50) div 32;
          preceding = DAYS_BEFORE_MONTH ! nat month
                      + (if month > 2 \<and> leapyear then 1 else 0)
      in if preceding > n
         then (month - 1,
               preceding - (DAYS_IN_MONTH ! nat (month - 1)
                            + (if month - 1 = 2 \<and> leapyear then 1 else 0)))
         else (month, preceding))"

definition ord2ymd :: "int \<Rightarrow> int \<times> int \<times> int" where
  "ord2ymd n0 =
     (let n = n0 - 1;
          n400 = n div DI400Y; n = n mod DI400Y;
          year = n400 * 400 + 1;
          n100 = n div DI100Y; n = n mod DI100Y;
          n4 = n div DI4Y; n = n mod DI4Y;
          n1 = n div 365; n = n mod 365;
          year = year + n100 * 100 + n4 * 4 + n1
      in if n1 = 4 \<or> n100 = 4 then (year - 1, 12, 31)
         else
           (let leapyear = (n1 = 3 \<and> (n4 \<noteq> 24 \<or> n100 = 3))
            in case month_of_yday n leapyear of
                 (month, preceding) \<Rightarrow> (year, month, n - preceding + 1)))"

subsection \<open>Naive \<open>datetime\<close> objects and \<open>timedelta\<close>\<close>

text \<open>
  The fields of a \<open>datetime\<close>. None of the timestamp formats has a directive for
  fractions of a second, so the microsecond field is always 0 and is left out. The
  \<open>tzinfo\<close> and \<open>fold\<close> that \<open>replace\<close> attaches are arguments of the timestamp
  functions below.
\<close>

record datetime =
  year :: int
  month :: int
  day :: int
  hour :: int
  minute :: int
  second :: int

definition check_date_fields :: "int \<Rightarrow> int \<Rightarrow> int \<Rightarrow> bool" where
  "check_date_fields y m d =
     (MINYEAR \<le> y \<and> y \<le> MAXYEAR \<and> 1 \<le> m \<and> m \<le> 12 \<and> 1 \<le> d \<and> d \<le> days_in_month y m)"

definition check_time_fields :: "int \<Rightarrow> int \<Rightarrow> int \<Rightarrow> bool" where
  "check_time_fields hh mm ss =
     (0 \<le> hh \<and> hh \<le> 23 \<and> 0 \<le> mm \<and> mm \<le> 59 \<and> 0 \<le> ss \<and> ss \<le> 59)"

text \<open>The constructor \<open>datetime(y, m, d, hh, mm, ss)\<close>.\<close>

definition new_datetime :: "int \<Rightarrow> int \<Rightarrow> int \<Rightarrow> int \<Rightarrow> int \<Rightarrow> int \<Rightarrow> error + datetime" where
  "new_datetime y m d hh mm ss =
     (if \<not> check_date_fields y m d then Inl (ValueError ''date field out of range'')
      else if \<not> check_time_fields hh mm ss then Inl (ValueError ''time field out of range'')
      else Inr \<lparr>year = y, month = m, day = d, hour = hh, minute = mm, second = ss\<rparr>)"

text \<open>The invariant of a constructed \<open>datetime\<close>: its fields passed both checks.\<close>

definition valid_datetime :: "datetime \<Rightarrow> bool" where
  "valid_datetime dt = (check_date_fields (year dt) (month dt) (day dt)
                          \<and> check_time_fields (hour dt) (minute dt) (second dt))"

definition toordinal :: "datetime \<Rightarrow> int" where
  "toordinal dt = ymd2ord (year dt) (month dt) (day dt)"

definition seconds_of_day :: "datetime \<Rightarrow> int" where
  "seconds_of_day dt = second dt + minute dt * 60 + hour dt * 3600"

text \<open>
  A \<open>timedelta\<close> is its total number of seconds (days and seconds normalised, no
  microseconds here). The constructor raises \<open>OverflowError\<close> when the number of
  days exceeds 999999999 in magnitude.
\<close>

definition timedelta_ok :: "int \<Rightarrow> bool" where
  "timedelta_ok t = (\<bar>t div 86400\<bar> \<le> 999999999)"

definition new_timedelta :: "int \<Rightarrow> int \<Rightarrow> error + int" where
  "new_timedelta hours minutes =
     (let t = minutes * 60 + hours * 3600
      in if timedelta_ok t then Inr t else Inl OverflowError)"

text \<open>
  \<open>dt - offset\<close> is \<open>dt + (-offset)\<close>: the negated \<open>timedelta\<close> is built, added to
  the \<open>timedelta\<close> of the datetime's ordinal and clock fields, and the sum is turned
  back into fields; a day count outside \<open>1..MAXORDINAL\<close> raises \<open>OverflowError\<close>.
\<close>

definition datetime_add :: "datetime \<Rightarrow> int \<Rightarrow> error + datetime" where
  "datetime_add dt other =
     (let delta = toordinal dt * 86400 + seconds_of_day dt + other;
          days = delta div 86400;
          secs = delta mod 86400;
          hh = secs div 3600; rem = secs mod 3600;
          mm = rem div 60; ss = rem mod 60
      in if \<not> timedelta_ok delta then Inl OverflowError
         else if 0 < days \<and> days \<le> MAXORDINAL
         then (case ord2ymd days of
                 (y, m, d) \<Rightarrow>
                   Inr \<lparr>year = y, month = m, day = d, hour = hh, minute = mm, second = ss\<rparr>)
         else Inl OverflowError)"

definition datetime_sub :: "datetime \<Rightarrow> int \<Rightarrow> error + datetime" where
  "datetime_sub dt offset =
     (if timedelta_ok (- offset) then datetime_add dt (- offset) else Inl OverflowError)"

definition EPOCHORDINAL :: int where
  "EPOCHORDINAL = 719163"

text \<open>
  Seconds from 1970-01-01 00:00:00 to the clock reading of \<open>dt\<close>, both read in the
  same zone. An aware datetime's \<open>timestamp()\<close> is this number minus its UTC offset;
  for \<open>tzinfo=timezone.utc\<close> the offset is 0. The float that \<open>timestamp()\<close> returns
  is a whole number far below \<open>2^53\<close>, so \<open>int()\<close> of it is exact.
\<close>

definition local_timestamp :: "datetime \<Rightarrow> int" where
  "local_timestamp dt =
     (toordinal dt - EPOCHORDINAL) * 86400 + hour dt * 3600 + minute dt * 60 + second dt"

definition timestamp_utc :: "datetime \<Rightarrow> int" where
  "timestamp_utc dt = (toordinal dt - EPOCHORDINAL) * 86400 + seconds_of_day dt"

section \<open>\<open>datetime.strptime\<close>\<close>

text \<open>
  \<open>strptime\<close> turns the format into a regular expression, matches it at the start
  of the data with \<open>IGNORECASE\<close>, and refuses data that the match leaves unconsumed.
  An item of the expression is a literal character, \<open>\s+\<close> for a run of blanks in
  the format, or the group of a directive.
\<close>

datatype re_item = Lit char | Ws | Dir char | Stray

function pattern :: "string \<Rightarrow> re_item list" where
  "pattern [] = []"
| "pattern (c # cs) =
     (if c = CHR ''%'' then (case cs of [] \<Rightarrow> [Stray] | d # r \<Rightarrow> Dir d # pattern r)
      else if py_isspace c then Ws # pattern (dropWhile py_isspace cs)
      else Lit c # pattern cs)"
  by pat_completeness auto
termination
  by (relation "measure length") (auto simp: length_dropWhile_le le_imp_less_Suc)

text \<open>Character classes: \<open>[lo-hi]\<close>, \<open>\d\<close>, and one literal character matched
  without regard to case.\<close>

definition rng :: "char \<Rightarrow> char \<Rightarrow> char \<Rightarrow> bool" where
  "rng lo hi c = (code_point lo \<le> code_point c \<and> code_point c \<le> code_point hi)"

definition chr_ci :: "char \<Rightarrow> char \<Rightarrow> bool" where
  "chr_ci x c = (py_lower_char c = py_lower_char x)"

text \<open>
  The groups of \<open>TimeRE\<close>: the alternatives of a directive in the order the regular
  expression lists them, each a sequence of character classes. The AM/PM names are
  those of the C and English locales.
\<close>

definition directive_regex :: "char \<Rightarrow> (char \<Rightarrow> bool) list list" where
  "directive_regex d =
     (if d = CHR ''d'' then
        [[rng CHR ''3'' CHR ''3'', rng CHR ''0'' CHR ''1''],
         [rng CHR ''1'' CHR ''2'', is_digit],
         [rng CHR ''0'' CHR ''0'', rng CHR ''1'' CHR ''9''],
         [rng CHR ''1'' CHR ''9''],
         [rng CHR '' '' CHR '' '', rng CHR ''1'' CHR ''9'']]
      else if d = CHR ''H'' then
        [[rng CHR ''2'' CHR ''2'', rng CHR ''0'' CHR ''3''],
         [rng CHR ''0'' CHR ''1'', is_digit],
         [is_digit]]
      else if d = CHR ''I'' \<or> d = CHR ''m'' then
        [[rng CHR ''1'' CHR ''1'', rng CHR ''0'' CHR ''2''],
         [rng CHR ''0'' CHR ''0'', rng CHR ''1'' CHR ''9''],
         [rng CHR ''1'' CHR ''9'']]
      else if d = CHR ''M'' then
        [[rng CHR ''0'' CHR ''5'', is_digit],
         [is_digit]]
      else if d = CHR ''S'' then
        [[rng CHR ''6'' CHR ''6'', rng CHR ''0'' CHR ''1''],
         [rng CHR ''0'' CHR ''5'', is_digit],
         [is_digit]]
      else if d = CHR ''y'' then [[is_digit, is_digit]]
      else if d = CHR ''Y'' then [[is_digit, is_digit, is_digit, is_digit]]
      else if d = CHR ''p'' then
        [[chr_ci CHR ''a'', chr_ci CHR ''m''],
         [chr_ci CHR ''p'', chr_ci CHR ''m'']]
      else [])"

fun match_alt :: "(char \<Rightarrow> bool) list \<Rightarrow> string \<Rightarrow> (string \<times> string) option" where
  "match_alt [] s = Some ([], s)"
| "match_alt (p # ps) [] = None"
| "match_alt (p # ps) (x # xs) =
     (if p x then map_option (\<lambda>(m, r). (x # m, r)) (match_alt ps xs) else None)"

definition directive_alts :: "char \<Rightarrow> string \<Rightarrow> (string \<times> string) list" where
  "directive_alts d s = List.map_filter (\<lambda>alt. match_alt alt s) (directive_regex d)"

text \<open>
  All the ways the expression matches a prefix of the data, in the order in which the
  backtracking matcher tries them: earlier alternatives first, \<open>\s+\<close> greedy. Each is
  the captured groups and the data left over. \<open>re.match\<close> returns the first.
\<close>

fun re_match :: "re_item list \<Rightarrow> string \<Rightarrow> ((char \<times> string) list \<times> string) list" where
  "re_match [] s = [([], s)]"
| "re_match (Lit c # items) s =
     (case s of
        [] \<Rightarrow> []
      | x # xs \<Rightarrow> if py_lower_char x = py_lower_char c then re_match items xs else [])"
| "re_match (Ws # items) s =
     concat (map (\<lambda>j. re_match items (drop j s))
                 (rev [1 ..< Suc (length (takeWhile py_isspace s))]))"
| "re_match (Dir d # items) s =
     concat (map (\<lambda>(txt, rest). map (\<lambda>(caps, r). ((d, txt) # caps, r)) (re_match items rest))
                 (directive_alts d s))"
| "re_match (Stray # items) s = []"

text \<open>The values \<open>_strptime\<close> collects while it walks over the groups.\<close>

record tm =
  tm_year :: "int option"
  tm_month :: int
  tm_day :: int
  tm_hour :: int
  tm_minute :: int
  tm_second :: int

definition tm_default :: tm where
  "tm_default = \<lparr>tm_year = None, tm_month = 1, tm_day = 1,
                  tm_hour = 0, tm_minute = 0, tm_second = 0\<rparr>"

definition convert_group :: "(char \<rightharpoonup> string) \<Rightarrow> char \<Rightarrow> int \<Rightarrow> tm \<Rightarrow> tm" where
  "convert_group found_dict group_key v t =
     (if group_key = CHR ''y'' then t\<lparr>tm_year := Some (if v \<le> 68 then v + 2000 else v + 1900)\<rparr>
      else if group_key = CHR ''Y'' then t\<lparr>tm_year := Some v\<rparr>
      else if group_key = CHR ''m'' then t\<lparr>tm_month := v\<rparr>
      else if group_key = CHR ''d'' then t\<lparr>tm_day := v\<rparr>
      else if group_key = CHR ''H'' then t\<lparr>tm_hour := v\<rparr>
      else if group_key = CHR ''I'' then
        (let ampm = py_lower (case found_dict CHR ''p'' of None \<Rightarrow> [] | Some a \<Rightarrow> a)
         in if ampm = [] \<or> ampm = ''am'' then t\<lparr>tm_hour := (if v = 12 then 0 else v)\<rparr>
            else if ampm = ''pm'' then t\<lparr>tm_hour := (if v \<noteq> 12 then v + 12 else v)\<rparr>
            else t\<lparr>tm_hour := v\<rparr>)
      else if group_key = CHR ''M'' then t\<lparr>tm_minute := v\<rparr>
      else if group_key = CHR ''S'' then t\<lparr>tm_second := v\<rparr>
      else t)"

fun convert_groups :: "(char \<rightharpoonup> string) \<Rightarrow> (char \<times> string) list \<Rightarrow> tm \<Rightarrow> error + tm" where
  "convert_groups found_dict [] t = Inr t"
| "convert_groups found_dict ((k, txt) # gs) t =
     (if k = CHR ''p'' then convert_groups found_dict gs t
      else (case py_int txt of
              None \<Rightarrow> Inl (ValueError ''invalid literal for int() with base 10'')
            | Some v \<Rightarrow> convert_groups found_dict gs (convert_group found_dict k v t)))"

definition strptime :: "string \<Rightarrow> string \<Rightarrow> error + datetime" where
  "strptime data_string format =
     (case re_match (pattern format) data_string of
        [] \<Rightarrow> Inl (ValueError ''time data does not match format'')
      | (found, rest) # _ \<Rightarrow>
          if rest \<noteq> [] then Inl (ValueError ''unconverted data remains'')
          else (case convert_groups (map_of found) found tm_default of
                  Inl e \<Rightarrow> Inl e
                | Inr t \<Rightarrow>
                    new_datetime (case tm_year t of None \<Rightarrow> 1900 | Some y \<Rightarrow> y)
                      (tm_month t) (tm_day t) (tm_hour t) (tm_minute t) (tm_second t)))"

section \<open>\<open>zoneinfo.ZoneInfo\<close>\<close>

text \<open>
  The content of the time zone database is a parameter. A loaded zone holds the UTC
  instants of its transitions, the UTC offset in force from each of them, the first
  offset of the file, the offset before the first transition, and what applies after
  the last transition: one fixed offset, or a rule with a standard and a daylight
  offset and the two rules of its yearly changes.
\<close>

datatype year_rule =
    DayOffset int bool int int int
  | CalendarOffset int int int int int int

text \<open>\<open>year_to_epoch\<close> of \<open>_DayOffset(d, julian, hour, minute, second)\<close> and of
  \<open>_CalendarOffset(m, w, d, hour, minute, second)\<close>: the local seconds since 1970 at
  which the rule's change happens in the given year.\<close>

definition post_epoch_days_before_year :: "int \<Rightarrow> int" where
  "post_epoch_days_before_year yr = days_before_year yr - 719163"

fun year_to_epoch :: "year_rule \<Rightarrow> int \<Rightarrow> int" where
  "year_to_epoch (DayOffset d julian hh mm ss) yr =
     (let d = (if julian \<and> d \<ge> 59 \<and> is_leap yr then d + 1 else d)
      in (post_epoch_days_before_year yr + d) * 86400 + (hh * 3600 + mm * 60 + ss))"
| "year_to_epoch (CalendarOffset m w d hh mm ss) yr =
     (let first_day = (ymd2ord yr m 1 + 6) mod 7;
          month_day = (d - (first_day + 1)) mod 7 + 1;
          month_day = month_day + (w - 1) * 7;
          month_day = (if month_day > days_in_month yr m then month_day - 7 else month_day);
          ordinal = post_epoch_days_before_year yr + days_before_month yr m + month_day
      in ordinal * 86400 + (hh * 3600 + mm * 60 + ss))"

datatype tz_after = TTInfo int | TZStr int int year_rule year_rule

record zoneinfo =
  trans_utc :: "int list"
  ttinfos :: "int list"
  utcoff_first :: int
  tti_before :: int
  tz_after :: tz_after

text \<open>\<open>_ts_to_local\<close>: the transition instants as local seconds, once with the larger
  and once with the smaller of the offsets before and after each transition.\<close>

fun ts_to_local :: "int \<Rightarrow> int list \<Rightarrow> int list \<Rightarrow> int list \<times> int list" where
  "ts_to_local prev (t # ts) (off # offs) =
     (case ts_to_local off ts offs of
        (w0, w1) \<Rightarrow> ((t + max prev off) # w0, (t + min prev off) # w1))"
| "ts_to_local prev _ _ = ([], [])"

definition trans_local :: "zoneinfo \<Rightarrow> bool \<Rightarrow> int list" where
  "trans_local z fld =
     (case ts_to_local (utcoff_first z) (trans_utc z) (ttinfos z) of
        (w0, w1) \<Rightarrow> if fld then w1 else w0)"

function bisect_loop :: "int list \<Rightarrow> int \<Rightarrow> nat \<Rightarrow> nat \<Rightarrow> nat" where
  "bisect_loop a x lo hi =
     (if lo < hi then
        (let mid = (lo + hi) div 2
         in if x < a ! mid then bisect_loop a x lo mid else bisect_loop a x (mid + 1) hi)
      else lo)"
  by pat_completeness auto
termination
  by (relation "measure (\<lambda>(a, x, lo, hi). hi - lo)") auto

declare bisect_loop.simps [simp del]

definition bisect_right :: "int list \<Rightarrow> int \<Rightarrow> nat" where
  "bisect_right a x = bisect_loop a x 0 (length a)"

text \<open>\<open>_TZStr._get_trans_info\<close>: the offset the rule gives to a local time.\<close>

definition get_trans_info :: "int \<Rightarrow> int \<Rightarrow> year_rule \<Rightarrow> year_rule \<Rightarrow> int \<Rightarrow> int \<Rightarrow> bool \<Rightarrow> int" where
  "get_trans_info std dst start_rule end_rule ts yr fld =
     (let dst_diff = dst - std;
          start0 = year_to_epoch start_rule yr;
          end0 = year_to_epoch end_rule yr;
          start1 = (if fld = (dst_diff \<ge> 0) then start0 else start0 + dst_diff);
          end1 = (if fld = (dst_diff \<ge> 0) then end0 - dst_diff else end0);
          isdst = (if start1 < end1 then start1 \<le> ts \<and> ts < end1
                   else \<not> (end1 \<le> ts \<and> ts < start1))
      in if isdst then dst else std)"

text \<open>\<open>_find_trans\<close>: the UTC offset of a local clock reading with its fold.\<close>

definition find_trans :: "zoneinfo \<Rightarrow> datetime \<Rightarrow> bool \<Rightarrow> int" where
  "find_trans z dt fld =
     (let ts = local_timestamp dt;
          lt = trans_local z fld;
          num_trans = length lt
      in if num_trans \<noteq> 0 \<and> ts < lt ! 0 then tti_before z
         else if num_trans = 0 \<or> ts > last lt then
           (case tz_after z of
              TZStr std dst start_rule end_rule \<Rightarrow>
                get_trans_info std dst start_rule end_rule ts (year dt) fld
            | TTInfo off \<Rightarrow> off)
         else ttinfos z ! (bisect_right lt ts - 1))"

text \<open>\<open>dt.replace(tzinfo=tz, fold=f).timestamp()\<close>: the difference to the epoch in
  UTC; \<open>datetime.utcoffset\<close> refuses an offset of a day or more.\<close>

definition aware_timestamp :: "zoneinfo \<Rightarrow> datetime \<Rightarrow> bool \<Rightarrow> error + int" where
  "aware_timestamp z dt fld =
     (let off = find_trans z dt fld
      in if - 86400 < off \<and> off < 86400 then Inr (local_timestamp dt - off)
         else Inl (ValueError ''utcoffset must be strictly between -24 and 24 hours''))"

text \<open>
  When a local clock reading \<open>ts\<close> (local seconds since 1970) lies in the repeated
  hour of a fall-back transition. The clocks go back at the UTC instant \<open>T\<close> from the
  offset \<open>off_dst\<close> to the smaller offset \<open>off_std\<close>, so the local readings from
  \<open>T + off_std\<close> up to \<open>T + off_dst\<close> occur twice: first at \<open>ts - off_dst\<close>, before
  \<open>T\<close>, and again at \<open>ts - off_std\<close>, from \<open>T\<close> on.

  \<open>table_fold\<close>: the transition is entry \<open>i\<close> of the zone's table, and \<open>ts\<close> comes
  before the next entry (for the last entry: \<open>ts\<close> is the first repeated second, or the
  zone keeps the new offset for good).

  \<open>rule_fold\<close>: \<open>ts\<close> lies after the table, the zone continues with a yearly rule, and
  the transition is the rule's end of daylight time in the year \<open>yr\<close>; the year's start
  of daylight time does not fall into the repeated hour.
\<close>

definition table_fold :: "zoneinfo \<Rightarrow> nat \<Rightarrow> int \<Rightarrow> int \<Rightarrow> int \<Rightarrow> int \<Rightarrow> bool" where
  "table_fold z i ts off_dst off_std T =
     (i < length (trans_utc z) \<and>
      T = trans_utc z ! i \<and>
      off_std = ttinfos z ! i \<and>
      off_dst = (if i = 0 then utcoff_first z else ttinfos z ! (i - 1)) \<and>
      off_std < off_dst \<and>
      T + off_std \<le> ts \<and> ts < T + off_dst \<and>
      (if Suc i < length (trans_utc z) then ts < trans_local z True ! Suc i
       else ts = T + off_std \<or> tz_after z = TTInfo off_std))"

definition rule_fold :: "zoneinfo \<Rightarrow> int \<Rightarrow> int \<Rightarrow> int \<Rightarrow> int \<Rightarrow> int \<Rightarrow> bool" where
  "rule_fold z yr ts off_dst off_std T =
     (case tz_after z of
        TTInfo _ \<Rightarrow> False
      | TZStr std dst start_rule end_rule \<Rightarrow>
          std = off_std \<and> dst = off_dst \<and>
          off_std < off_dst \<and>
          (trans_local z True = [] \<or> last (trans_local z True) < ts) \<and>
          T = year_to_epoch end_rule yr - off_dst \<and>
          T + off_std \<le> ts \<and> ts < T + off_dst \<and>
          (year_to_epoch start_rule yr < T + off_std \<or> ts < year_to_epoch start_rule yr))"

section \<open>\<open>scripts/utils.py\<close>\<close>

definition formats :: "string list" where
  "formats = [''%m/%d/%y %I:%M:%S %p'',
              ''%m/%d/%Y %I:%M:%S %p'',
              ''%Y-%m-%d %H:%M:%S'',
              ''%m/%d/%y %H:%M:%S'']"

text \<open>The loop over the formats: the first format that \<open>strptime\<close> accepts gives the
  datetime; a \<open>ValueError\<close> moves on to the next format, any other exception leaves
  the loop.\<close>

fun try_formats :: "string \<Rightarrow> string list \<Rightarrow> error + datetime option" where
  "try_formats local_time_str [] = Inr None"
| "try_formats local_time_str (fmt # fmts) =
     (case strptime local_time_str fmt of
        Inr dt \<Rightarrow> Inr (Some dt)
      | Inl (ValueError _) \<Rightarrow> try_formats local_time_str fmts
      | Inl e \<Rightarrow> Inl e)"

text \<open>\<open>hours, minutes = map(int, fixed_offset[1:].split(':'))\<close>: the items are
  converted one by one as the unpacking asks for them.\<close>

fun unpack_ints :: "string list \<Rightarrow> error + (int \<times> int)" where
  "unpack_ints [] = Inl (ValueError ''not enough values to unpack (expected 2, got 0)'')"
| "unpack_ints [a] =
     (case py_int a of
        None \<Rightarrow> Inl (ValueError ''invalid literal for int() with base 10'')
      | Some _ \<Rightarrow> Inl (ValueError ''not enough values to unpack (expected 2, got 1)''))"
| "unpack_ints (a # b # rest) =
     (case py_int a of
        None \<Rightarrow> Inl (ValueError ''invalid literal for int() with base 10'')
      | Some hours \<Rightarrow>
          (case py_int b of
             None \<Rightarrow> Inl (ValueError ''invalid literal for int() with base 10'')
           | Some minutes \<Rightarrow>
               (case rest of
                  [] \<Rightarrow> Inr (hours, minutes)
                | c # _ \<Rightarrow>
                    (case py_int c of
                       None \<Rightarrow> Inl (ValueError ''invalid literal for int() with base 10'')
                     | Some _ \<Rightarrow> Inl (ValueError ''too many values to unpack (expected 2)'')))))"

text \<open>The fixed-offset branch of \<open>local_to_utc\<close>, for a non-empty \<open>fixed_offset\<close>.\<close>

definition apply_fixed_offset :: "datetime \<Rightarrow> string \<Rightarrow> error + int" where
  "apply_fixed_offset dt fixed_offset =
     (let sign = (if hd fixed_offset = CHR ''+'' then 1 else - 1)
      in case unpack_ints (split_on CHR '':'' (tl fixed_offset)) of
           Inl e \<Rightarrow> Inl e
         | Inr (hours, minutes) \<Rightarrow>
             (case new_timedelta (sign * hours) (sign * minutes) of
                Inl e \<Rightarrow> Inl e
              | Inr offset \<Rightarrow>
                  (case datetime_sub dt offset of
                     Inl e \<Rightarrow> Inl e
                   | Inr utc_dt \<Rightarrow> Inr (timestamp_utc utc_dt))))"

text \<open>
  \<open>local_to_utc(local_time_str, timezone_name, fixed_offset)\<close> in its two phases:
  parsing the string (the loop and the check for \<open>dt is None\<close>), then converting the
  datetime. The first argument of the model is the time zone database: what
  \<open>ZoneInfo(timezone_name)\<close> returns or raises. \<open>fixed_offset\<close> is \<open>None\<close> or a
  string; the empty string is false as \<open>None\<close> is.
\<close>

definition parse_local_time :: "string \<Rightarrow> error + datetime" where
  "parse_local_time local_time_str =
     (case try_formats local_time_str formats of
        Inl e \<Rightarrow> Inl e
      | Inr None \<Rightarrow> Inl (ValueError (''Could not parse timestamp: '' @ local_time_str))
      | Inr (Some dt) \<Rightarrow> Inr dt)"

definition utc_of_datetime ::
  "(string \<Rightarrow> error + zoneinfo) \<Rightarrow> datetime \<Rightarrow> string \<Rightarrow> string option \<Rightarrow> error + int" where
  "utc_of_datetime tzdb dt timezone_name fixed_offset =
     (case fixed_offset of
        Some (c # cs) \<Rightarrow> apply_fixed_offset dt (c # cs)
      | _ \<Rightarrow>
          (case tzdb timezone_name of
             Inl e \<Rightarrow> Inl e
           | Inr tz \<Rightarrow> aware_timestamp tz dt True))"

definition local_to_utc ::
  "(string \<Rightarrow> error + zoneinfo) \<Rightarrow> string \<Rightarrow> string \<Rightarrow> string option \<Rightarrow> error + int" where
  "local_to_utc tzdb local_time_str timezone_name fixed_offset =
     (case parse_local_time local_time_str of
        Inl e \<Rightarrow> Inl e
      | Inr dt \<Rightarrow> utc_of_datetime tzdb dt timezone_name fixed_offset)"

text \<open>A time zone database without any zone, for calls that never consult it.\<close>

definition no_tzdb :: "string \<Rightarrow> error + zoneinfo" where
  "no_tzdb key = Inl (ZoneInfoNotFoundError key)"

text \<open>
  An excerpt of the zone America/New_York for examples: the three transitions of March
  2024, November 2024 and March 2025 between the offsets of EST (\<open>-18000\<close>) and EDT
  (\<open>-14400\<close>), followed by the rule \<open>EST5EDT,M3.2.0,M11.1.0\<close>.
\<close>

definition new_york_excerpt :: zoneinfo where
  "new_york_excerpt =
     \<lparr>trans_utc = [1710054000, 1730613600, 1741503600],
      ttinfos = [- 14400, - 18000, - 14400],
      utcoff_first = - 18000,
      tti_before = - 18000,
      tz_after = TZStr (- 18000) (- 14400)
                   (CalendarOffset 3 2 0 2 0 0) (CalendarOffset 11 1 0 2 0 0)\<rparr>"

definition excerpt_tzdb :: "string \<Rightarrow> error + zoneinfo" where
  "excerpt_tzdb key =
     (if key = ''America/New_York'' then Inr new_york_excerpt
      else Inl (ZoneInfoNotFoundError key))"

section \<open>\<open>scripts/ingest_ibutton_csv.py\<close>\<close>

subsection \<open>JSON values and dictionaries\<close>

text \<open>
  What \<open>json.load\<close> returns. A dictionary is an association list without repeated
  keys, in insertion order; numbers are integers here (a number only matters through
  its truth value).
\<close>

datatype json =
    JNull
  | JBool bool
  | JNum int
  | JStr string
  | JArr "json list"
  | JObj "(string \<times> json) list"

text \<open>The truth value of a Python object, as \<open>or\<close>, \<open>not\<close> and \<open>if\<close> take it.\<close>

fun truthy :: "json \<Rightarrow> bool" where
  "truthy JNull = False"
| "truthy (JBool b) = b"
| "truthy (JNum n) = (n \<noteq> 0)"
| "truthy (JStr s) = (s \<noteq> [])"
| "truthy (JArr xs) = (xs \<noteq> [])"
| "truthy (JObj kvs) = (kvs \<noteq> [])"

definition py_or :: "json \<Rightarrow> json \<Rightarrow> json" where
  "py_or a b = (if truthy a then a else b)"

definition opt_json :: "string option \<Rightarrow> json" where
  "opt_json a = (case a of None \<Rightarrow> JNull | Some s \<Rightarrow> JStr s)"

text \<open>\<open>d.get(key, default)\<close>: only a dictionary has the method.\<close>

fun json_get :: "json \<Rightarrow> string \<Rightarrow> json \<Rightarrow> error + json" where
  "json_get (JObj kvs) key dflt = Inr (case map_of kvs key of None \<Rightarrow> dflt | Some v \<Rightarrow> v)"
| "json_get _ key dflt = Inl AttributeError"

text \<open>\<open>d[key] = value\<close> on an association list: an existing key keeps its place.\<close>

fun dict_set :: "'k \<Rightarrow> 'v \<Rightarrow> ('k \<times> 'v) list \<Rightarrow> ('k \<times> 'v) list" where
  "dict_set k v [] = [(k, v)]"
| "dict_set k v (p # ps) = (if fst p = k then (k, v) # ps else p # dict_set k v ps)"

text \<open>\<open>a or b\<close> for an optional string \<open>a\<close> (the result of \<open>metadata.get\<close>) and a string.\<close>

definition str_or :: "string option \<Rightarrow> string \<Rightarrow> string" where
  "str_or a b = (case a of None \<Rightarrow> b | Some s \<Rightarrow> if s \<noteq> [] then s else b)"

subsection \<open>The store\<close>

text \<open>
  Modelled from the spec: the schema \<open>schema/temperature.sql\<close> is not among the
  sources. The tables and columns are those the statements of the script name and the
  spec lists; identities are assigned by the store, one above the largest in the table;
  the content hash of a file and the registration number of a sensor are unique, which
  the script checks itself before it inserts. A column that receives a value from the
  metadata document holds a JSON value (\<open>JNull\<close> for \<open>NULL\<close>). The type \<open>'f\<close> is the type
  of floats.
\<close>

record sensor_row =
  sensor_id :: int
  sensor_type :: string
  part_number :: string
  registration_number :: string
  label :: "string option"

record sensor_deployment_row =
  sd_sensor_id :: int
  sd_deployment_id :: int
  location_notes :: json
  sd_notes :: json

record file_row =
  file_id :: int
  f_deployment_id :: int
  f_sensor_id :: int
  path :: string
  sha256 :: string
  metadata_json :: "(string \<times> json) list"

record 'f reading_row =
  r_file_id :: int
  r_deployment_id :: int
  r_sensor_id :: int
  time_local_text :: string
  time_utc :: int
  value_c :: 'f
  quality_flag :: int

record 'f database =
  sensors :: "sensor_row list"
  sensor_deployments :: "sensor_deployment_row list"
  files :: "file_row list"
  temperature_readings :: "'f reading_row list"

text \<open>A connection: the tables as the connection sees them, with its own writes, and
  the tables as of the last \<open>commit\<close>.\<close>

record 'f connection =
  view :: "'f database"
  committed :: "'f database"

definition commit :: "'f connection \<Rightarrow> 'f connection" where
  "commit conn = conn\<lparr>committed := view conn\<rparr>"

definition lastrowid :: "int list \<Rightarrow> int" where
  "lastrowid ids = foldr max ids 0 + 1"

text \<open>What the script prints.\<close>

datatype message =
    Parsing string
  | AlreadyIngested string
  | RowWarning nat error
  | Ingested nat string
  | NoValidReadings string

subsection \<open>Input files\<close>

text \<open>
  The file system is a parameter: a path leads to no file or to a file, of which the
  script uses the SHA-256 digest of the bytes (\<open>compute_file_hash\<close>) and the rows that
  \<open>csv.reader\<close> yields for the text.
\<close>

record csv_content =
  content_hash :: string
  csv_rows :: "string list list"

text \<open>\<open>Path(p).name\<close> and \<open>Path(p).stem\<close> for a POSIX path.\<close>

definition path_name :: "string \<Rightarrow> string" where
  "path_name p =
     (case filter (\<lambda>part. part \<noteq> []) (split_on CHR ''/'' p) of
        [] \<Rightarrow> []
      | parts \<Rightarrow> last parts)"

definition path_stem :: "string \<Rightarrow> string" where
  "path_stem p =
     (let name = path_name p
      in if CHR ''.'' \<in> set name then
           (let i = length name - 1 - length (takeWhile (\<lambda>c. c \<noteq> CHR ''.'') (rev name))
            in if 0 < i \<and> i < length name - 1 then take i name else name)
         else name)"

subsection \<open>\<open>parse_ibutton_header\<close>\<close>

fun header_loop ::
  "nat \<Rightarrow> string list list \<Rightarrow> (string \<times> string) list \<Rightarrow> (string \<times> string) list \<times> nat" where
  "header_loop i [] metadata = (metadata, 0)"
| "header_loop i ([] # rows) metadata = header_loop (Suc i) rows metadata"
| "header_loop i ((c0 # rest) # rows) metadata =
     (if py_lower (py_strip c0) = ''date/time'' \<or> py_lower (py_strip c0) = ''date time''
      then (metadata, i)
      else (case rest of
              c1 # _ \<Rightarrow>
                header_loop (Suc i) rows
                  (dict_set (rstrip_char CHR '':'' (py_strip c0)) (py_strip c1) metadata)
            | [] \<Rightarrow>
                (case split_once CHR '':'' c0 of
                   [k, v] \<Rightarrow> header_loop (Suc i) rows (dict_set (py_strip k) (py_strip v) metadata)
                 | _ \<Rightarrow> header_loop (Suc i) rows metadata)))"

definition parse_ibutton_header ::
  "string \<Rightarrow> string list list \<Rightarrow> error + ((string \<times> string) list \<times> nat)" where
  "parse_ibutton_header csv_path rows =
     (case header_loop 1 rows [] of
        (metadata, data_start_line) \<Rightarrow>
          if data_start_line = 0
          then Inl (ValueError (''Could not find data section in '' @ csv_path))
          else Inr (metadata, data_start_line))"

subsection \<open>\<open>get_or_create_sensor\<close>\<close>

definition get_or_create_sensor ::
  "'f connection \<Rightarrow> (string \<times> string) list \<Rightarrow> string option
     \<Rightarrow> (error + int) \<times> 'f connection" where
  "get_or_create_sensor conn metadata lbl =
     (let part = str_or (map_of metadata ''1-Wire/iButton Part Number'')
                   (str_or (map_of metadata ''Part Number'')
                      (str_or (map_of metadata ''Part'') []));
          reg = str_or (map_of metadata ''1-Wire/iButton Registration Number'')
                  (str_or (map_of metadata ''Registration Number'')
                     (str_or (map_of metadata ''Registration'') []))
      in if reg = [] then (Inl (ValueError ''Registration number not found in metadata''), conn)
         else
           (case find (\<lambda>r. registration_number r = reg) (sensors (view conn)) of
              Some row \<Rightarrow>
                (if (case lbl of None \<Rightarrow> False | Some l \<Rightarrow> l \<noteq> [])
                    \<and> (case label row of None \<Rightarrow> True | Some l \<Rightarrow> l = [])
                 then (Inr (sensor_id row),
                       commit (conn\<lparr>view := (view conn)\<lparr>sensors :=
                          map (\<lambda>r. if sensor_id r = sensor_id row then r\<lparr>label := lbl\<rparr> else r)
                              (sensors (view conn))\<rparr>\<rparr>))
                 else (Inr (sensor_id row), conn))
            | None \<Rightarrow>
                (let new_id = lastrowid (map sensor_id (sensors (view conn)))
                 in (Inr new_id,
                     commit (conn\<lparr>view := (view conn)\<lparr>sensors := sensors (view conn) @
                        [\<lparr>sensor_id = new_id, sensor_type = ''ibutton_ds1925'',
                          part_number = part, registration_number = reg,
                          label = lbl\<rparr>]\<rparr>\<rparr>)))))"

subsection \<open>\<open>upsert_sensor_deployment\<close>\<close>

text \<open>A list or a dictionary cannot be bound to a statement parameter.\<close>

fun bindable :: "json \<Rightarrow> bool" where
  "bindable (JArr _) = False"
| "bindable (JObj _) = False"
| "bindable _ = True"

definition upsert_sensor_deployment ::
  "'f connection \<Rightarrow> int \<Rightarrow> int \<Rightarrow> json \<Rightarrow> json \<Rightarrow> (error + unit) \<times> 'f connection" where
  "upsert_sensor_deployment conn sid did loc notes =
     (let rows = sensor_deployments (view conn);
          exists = list_ex (\<lambda>r. sd_sensor_id r = sid \<and> sd_deployment_id r = did) rows
      in if \<not> (bindable loc \<and> bindable notes) then (Inl ProgrammingError, conn)
         else if exists then
           (Inr (),
            commit (conn\<lparr>view := (view conn)\<lparr>sensor_deployments :=
               map (\<lambda>r. if sd_sensor_id r = sid \<and> sd_deployment_id r = did
                         then r\<lparr>location_notes := loc, sd_notes := notes\<rparr> else r) rows\<rparr>\<rparr>))
         else
           (Inr (),
            commit (conn\<lparr>view := (view conn)\<lparr>sensor_deployments := rows @
               [\<lparr>sd_sensor_id = sid, sd_deployment_id = did,
                 location_notes = loc, sd_notes = notes\<rparr>]\<rparr>\<rparr>)))"

subsection \<open>\<open>file_already_ingested\<close> (\<open>scripts/utils.py\<close>)\<close>

definition file_already_ingested :: "'f connection \<Rightarrow> string \<Rightarrow> bool" where
  "file_already_ingested conn digest =
     (length (filter (\<lambda>f. sha256 f = digest) (files (view conn))) > 0)"

subsection \<open>\<open>ingest_csv_file\<close>\<close>

text \<open>The label from the file name.\<close>

definition derive_label :: "string \<Rightarrow> string option" where
  "derive_label filename =
     (if contains ''_iButton_'' filename \<or> contains ''_ibutton_'' filename
      then Some (split_head ''_ibutton_'' (split_head ''_iButton_'' filename))
      else None)"

text \<open>The per-sensor entries of the deployment metadata: the location and the notes
  that the document gives for the label.\<close>

definition sensor_overrides :: "json \<Rightarrow> string option \<Rightarrow> error + (json \<times> json)" where
  "sensor_overrides deployment_metadata lbl =
     (case json_get deployment_metadata ''sensors'' (JObj []) of
        Inl e \<Rightarrow> Inl e
      | Inr all_sensors \<Rightarrow>
          (case (case lbl of
                   None \<Rightarrow> (case all_sensors of JObj _ \<Rightarrow> Inr (JObj []) | _ \<Rightarrow> Inl AttributeError)
                 | Some l \<Rightarrow> json_get all_sensors l (JObj [])) of
             Inl e \<Rightarrow> Inl e
           | Inr sensor_metadata \<Rightarrow>
               (case json_get sensor_metadata ''location'' JNull of
                  Inl e \<Rightarrow> Inl e
                | Inr location \<Rightarrow>
                    (case json_get sensor_metadata ''notes'' JNull of
                       Inl e \<Rightarrow> Inl e
                     | Inr notes \<Rightarrow> Inr (location, notes)))))"

text \<open>
  One data row. \<open>float()\<close> is a parameter, \<open>None\<close> standing for its \<open>ValueError\<close>. A
  row is passed over in silence, or dropped with a warning that carries the exception,
  or it gives a reading.
\<close>

datatype 'f row_result = Passed | Warned error | Reading "'f reading_row"

definition parse_row ::
  "(string \<Rightarrow> error + zoneinfo) \<Rightarrow> (string \<Rightarrow> 'f option) \<Rightarrow> int \<Rightarrow> int \<Rightarrow> int
     \<Rightarrow> string \<Rightarrow> string option \<Rightarrow> string list \<Rightarrow> 'f row_result" where
  "parse_row tzdb pyfloat fid did sid timezone_name fixed_offset row =
     (if length row < 3 then Passed
      else
        (let time_local = py_strip (row ! 0);
             value_str = py_strip (row ! 2)
         in if time_local = [] \<or> value_str = [] then Passed
            else
              (case local_to_utc tzdb time_local timezone_name fixed_offset of
                 Inl e \<Rightarrow> Warned e
               | Inr t \<Rightarrow>
                   (case pyfloat value_str of
                      None \<Rightarrow> Warned (ValueError (''could not convert string to float: '' @ value_str))
                    | Some v \<Rightarrow>
                        Reading \<lparr>r_file_id = fid, r_deployment_id = did, r_sensor_id = sid,
                                 time_local_text = time_local, time_utc = t, value_c = v,
                                 quality_flag = 0\<rparr>))))"

text \<open>The loop over the rows of the file, numbered from 1: the rows up to and including
  the data header are passed over.\<close>

fun read_rows ::
  "(string list \<Rightarrow> 'f row_result) \<Rightarrow> nat \<Rightarrow> nat \<Rightarrow> string list list
     \<Rightarrow> 'f reading_row list \<times> message list" where
  "read_rows parse data_start_line i [] = ([], [])"
| "read_rows parse data_start_line i (row # rows) =
     (if i \<le> data_start_line then read_rows parse data_start_line (Suc i) rows
      else
        (case read_rows parse data_start_line (Suc i) rows of
           (readings, warnings) \<Rightarrow>
             (case parse row of
                Passed \<Rightarrow> (readings, warnings)
              | Warned e \<Rightarrow> (readings, RowWarning i e # warnings)
              | Reading r \<Rightarrow> (r # readings, warnings))))"

text \<open>
  The part of \<open>ingest_csv_file\<close> after the hash check: the file record, the readings,
  the bulk insert with its commit.
\<close>

definition insert_file_and_readings ::
  "(string \<Rightarrow> error + zoneinfo) \<Rightarrow> (string \<Rightarrow> 'f option) \<Rightarrow> 'f connection \<Rightarrow> string
     \<Rightarrow> csv_content \<Rightarrow> (string \<times> string) list \<Rightarrow> nat \<Rightarrow> int \<Rightarrow> int \<Rightarrow> json
     \<Rightarrow> string \<Rightarrow> string option \<Rightarrow> message list \<times> 'f connection" where
  "insert_file_and_readings tzdb pyfloat conn csv_path content metadata data_start_line
       did sid sensor_notes timezone_name fixed_offset =
     (let file_metadata = map (\<lambda>(k, v). (k, JStr v)) metadata;
          file_metadata = (if truthy sensor_notes
                           then dict_set ''deployment_sensor_notes'' sensor_notes file_metadata
                           else file_metadata);
          fid = lastrowid (map file_id (files (view conn)));
          conn = conn\<lparr>view := (view conn)\<lparr>files := files (view conn) @
                   [\<lparr>file_id = fid, f_deployment_id = did, f_sensor_id = sid,
                     path = csv_path, sha256 = content_hash content,
                     metadata_json = file_metadata\<rparr>]\<rparr>\<rparr>
      in case read_rows (parse_row tzdb pyfloat fid did sid timezone_name fixed_offset)
                data_start_line 1 (csv_rows content) of
           (readings, warnings) \<Rightarrow>
             if readings \<noteq> []
             then (warnings @ [Ingested (length readings) (path_name csv_path)],
                   commit (conn\<lparr>view := (view conn)\<lparr>temperature_readings :=
                      temperature_readings (view conn) @ readings\<rparr>\<rparr>))
             else (warnings @ [NoValidReadings (path_name csv_path)], conn))"

text \<open>
  \<open>ingest_csv_file\<close>. The result is the exception that left the function, if any, what
  was printed, and the connection afterwards. \<open>JNull\<close> is the \<open>None\<close> that the parameter
  \<open>deployment_metadata\<close> has by default.
\<close>

definition ingest_csv_file ::
  "(string \<Rightarrow> error + zoneinfo) \<Rightarrow> (string \<Rightarrow> 'f option) \<Rightarrow> (string \<Rightarrow> csv_content option)
     \<Rightarrow> 'f connection \<Rightarrow> string \<Rightarrow> int \<Rightarrow> string \<Rightarrow> json \<Rightarrow> string option
     \<Rightarrow> error option \<times> message list \<times> 'f connection" where
  "ingest_csv_file tzdb pyfloat fs conn csv_path did timezone_name deployment_metadata
       fixed_offset =
     (let deployment_metadata =
            (if deployment_metadata = JNull then JObj [] else deployment_metadata)
      in
      case fs csv_path of
        None \<Rightarrow> (Some (FileNotFoundError (''CSV file not found: '' @ csv_path)), [], conn)
      | Some content \<Rightarrow>
          (case parse_ibutton_header csv_path (csv_rows content) of
             Inl e \<Rightarrow> (Some e, [Parsing (path_name csv_path)], conn)
           | Inr (metadata, data_start_line) \<Rightarrow>
               (let lbl = derive_label (path_stem csv_path)
                in case sensor_overrides deployment_metadata lbl of
                     Inl e \<Rightarrow> (Some e, [Parsing (path_name csv_path)], conn)
                   | Inr (location, sensor_notes) \<Rightarrow>
                       (case get_or_create_sensor conn metadata lbl of
                          (Inl e, conn1) \<Rightarrow> (Some e, [Parsing (path_name csv_path)], conn1)
                        | (Inr sid, conn1) \<Rightarrow>
                            (case upsert_sensor_deployment conn1 sid did location sensor_notes of
                               (Inl e, conn2) \<Rightarrow> (Some e, [Parsing (path_name csv_path)], conn2)
                             | (Inr _, conn2) \<Rightarrow>
                                 if file_already_ingested conn2 (content_hash content)
                                 then (None,
                                       [Parsing (path_name csv_path),
                                        AlreadyIngested (path_name csv_path)],
                                       conn2)
                                 else
                                   (case insert_file_and_readings tzdb pyfloat conn2 csv_path
                                           content metadata data_start_line did sid
                                           sensor_notes timezone_name fixed_offset of
                                      (printed, conn3) \<Rightarrow>
                                        (None, Parsing (path_name csv_path) # printed,
                                         conn3)))))))"

text \<open>
  The rows of a data block. A row reaches the parse when it has three fields and neither
  its time nor its value is blank; such a row is well formed when its timestamp converts
  and its value is a number.
\<close>

definition reaches_parse :: "string list \<Rightarrow> bool" where
  "reaches_parse row =
     (3 \<le> length row \<and> py_strip (row ! 0) \<noteq> [] \<and> py_strip (row ! 2) \<noteq> [])"

definition well_formed_row ::
  "(string \<Rightarrow> error + zoneinfo) \<Rightarrow> (string \<Rightarrow> 'f option) \<Rightarrow> string \<Rightarrow> string option
     \<Rightarrow> string list \<Rightarrow> bool" where
  "well_formed_row tzdb pyfloat tzn fo row =
     (reaches_parse row \<and>
      (case local_to_utc tzdb (py_strip (row ! 0)) tzn fo of Inl _ \<Rightarrow> False | Inr _ \<Rightarrow> True) \<and>
      pyfloat (py_strip (row ! 2)) \<noteq> None)"

text \<open>
  A malformed row, in the words of the spec: a row with a timestamp and a value of which
  the timestamp does not convert or the value is not a number. The two fields are taken
  stripped, as the loop takes them; either may be blank.
\<close>

definition malformed_row ::
  "(string \<Rightarrow> error + zoneinfo) \<Rightarrow> (string \<Rightarrow> 'f option) \<Rightarrow> string \<Rightarrow> string option
     \<Rightarrow> string list \<Rightarrow> bool" where
  "malformed_row tzdb pyfloat tzn fo row =
     (3 \<le> length row \<and>
      ((case local_to_utc tzdb (py_strip (row ! 0)) tzn fo of Inl _ \<Rightarrow> True | Inr _ \<Rightarrow> False) \<or>
       pyfloat (py_strip (row ! 2)) = None))"

fun is_row_warning :: "message \<Rightarrow> bool" where
  "is_row_warning (RowWarning _ _) = True"
| "is_row_warning _ = False"

fun is_reading :: "'f row_result \<Rightarrow> bool" where
  "is_reading (Reading _) = True"
| "is_reading _ = False"

fun is_warned :: "'f row_result \<Rightarrow> bool" where
  "is_warned (Warned _) = True"
| "is_warned _ = False"

subsection \<open>\<open>main\<close>: the settings of a run\<close>

text \<open>The command line after \<open>argparse\<close>: \<open>--timezone\<close> has a default, so it is always
  a string; the other three are \<open>None\<close> when not given.\<close>

record args =
  arg_deployment :: "string option"
  arg_site :: "string option"
  arg_timezone :: string
  arg_notes :: "string option"

record settings =
  cfg_deployment_name :: json
  cfg_site_name :: json
  cfg_timezone_name :: json
  cfg_fixed_offset :: json
  cfg_deployment_notes :: json

definition resolve_settings :: "args \<Rightarrow> json \<Rightarrow> error + settings" where
  "resolve_settings a deployment_metadata =
     (case json_get deployment_metadata ''deployment'' JNull of
        Inl e \<Rightarrow> Inl e
      | Inr md_deployment \<Rightarrow>
     (case json_get deployment_metadata ''site'' JNull of
        Inl e \<Rightarrow> Inl e
      | Inr md_site \<Rightarrow>
     (case json_get deployment_metadata ''timezone'' JNull of
        Inl e \<Rightarrow> Inl e
      | Inr md_timezone \<Rightarrow>
     (case json_get deployment_metadata ''timezone_fixed_offset'' JNull of
        Inl e \<Rightarrow> Inl e
      | Inr md_fixed_offset \<Rightarrow>
     (case json_get deployment_metadata ''deployment_notes'' JNull of
        Inl e \<Rightarrow> Inl e
      | Inr md_notes \<Rightarrow>
          Inr \<lparr>cfg_deployment_name = py_or (opt_json (arg_deployment a)) md_deployment,
               cfg_site_name = py_or (opt_json (arg_site a)) md_site,
               cfg_timezone_name = py_or md_timezone (JStr (arg_timezone a)),
               cfg_fixed_offset = md_fixed_offset,
               cfg_deployment_notes = py_or (opt_json (arg_notes a)) md_notes\<rparr>)))))"

subsection \<open>Example inputs\<close>

text \<open>
  A stand-in for \<open>float()\<close> in examples: it accepts an optional sign, digits, and an
  optional fraction, and keeps the text as the value.
\<close>

definition example_float :: "string \<Rightarrow> string option" where
  "example_float s =
     (let body = (case s of c # cs \<Rightarrow> if c = CHR ''-'' \<or> c = CHR ''+'' then cs else s | [] \<Rightarrow> s);
          whole = takeWhile is_digit body;
          rest = dropWhile is_digit body
      in if whole \<noteq> [] \<and> (rest = [] \<or> (hd rest = CHR ''.'' \<and> list_all is_digit (tl rest)))
         then Some s else None)"

text \<open>
  A directory with four files: a logger file with two good rows and a row whose value
  is not a number, a byte-identical copy of it under another name, a file whose
  header has no registration number, and a file with two good rows and a row whose value
  is empty.
\<close>

definition antenna_rows :: "string list list" where
  "antenna_rows =
     [[''Part Number'', ''DS1925L''],
      [''Registration Number'', ''ABC123''],
      [''Date/Time'', ''Unit'', ''Value''],
      [''12/31/24 11:59:59 PM'', ''C'', ''-5.25''],
      [''01/01/25 12:00:00 AM'', ''C'', ''n/a''],
      [''01/01/25 12:10:00 AM'', ''C'', ''-5.10'']]"

definition mast_rows :: "string list list" where
  "mast_rows =
     [[''Part Number'', ''DS1925L''],
      [''Registration Number'', ''XYZ789''],
      [''Date/Time'', ''Unit'', ''Value''],
      [''12/31/24 11:59:59 PM'', ''C'', ''-6.50''],
      [''01/01/25 12:00:00 AM'', ''C'', []],
      [''01/01/25 12:10:00 AM'', ''C'', ''-6.40'']]"

definition example_fs :: "string \<Rightarrow> csv_content option" where
  "example_fs p =
     (if p = ''data/Antenna_iButton_Dec2025.csv'' \<or> p = ''data/backup.csv''
      then Some \<lparr>content_hash = ''9f2c'', csv_rows = antenna_rows\<rparr>
      else if p = ''data/Roof_iButton_Dec2025.csv''
      then Some \<lparr>content_hash = ''41d0'',
                  csv_rows = [[''Part Number'', ''DS1925L''],
                              [''Date/Time'', ''Unit'', ''Value''],
                              [''12/31/24 11:59:59 PM'', ''C'', ''-7.00'']]\<rparr>
      else if p = ''data/Mast_iButton_Dec2025.csv''
      then Some \<lparr>content_hash = ''c8e1'', csv_rows = mast_rows\<rparr>
      else None)"

definition example_metadata :: json where
  "example_metadata =
     JObj [(''deployment'', JStr ''Test_2025''),
           (''site'', JStr ''TestSite''),
           (''timezone'', JStr ''America/New_York''),
           (''sensors'', JObj [(''Antenna'', JObj [(''location'', JStr ''mast''),
                                                   (''notes'', JStr ''north side'')])])]"

definition empty_connection :: "string connection" where
  "empty_connection =
     \<lparr>view = \<lparr>sensors = [], sensor_deployments = [], files = [], temperature_readings = []\<rparr>,
      committed = \<lparr>sensors = [], sensor_deployments = [], files = [],
                   temperature_readings = []\<rparr>\<rparr>"

text \<open>The connection after the first file of the directory has been ingested.\<close>

definition after_antenna :: "string connection" where
  "after_antenna =
     snd (snd (ingest_csv_file excerpt_tzdb example_float example_fs empty_connection
                 ''data/Antenna_iButton_Dec2025.csv'' 1 ''America/New_York''
                 example_metadata None))"

text \<open>The connection after the copy has been ingested first instead: its name gives no
  label.\<close>

definition after_backup :: "string connection" where
  "after_backup =
     snd (snd (ingest_csv_file excerpt_tzdb example_float example_fs empty_connection
                 ''data/backup.csv'' 1 ''America/New_York'' example_metadata None))"

section \<open>Properties\<close>

subsection \<open>The calendar: ordinals and dates\<close>

lemma div32: "(n::int) div 32 = q \<longleftrightarrow> 32 * q \<le> n \<and> n < 32 * q + 32"
  by arith

lemma int_1_12: "1 \<le> (m::int) \<Longrightarrow> m \<le> 12 \<Longrightarrow>
   m = 1 \<or> m = 2 \<or> m = 3 \<or> m = 4 \<or> m = 5 \<or> m = 6 \<or> m = 7 \<or> m = 8 \<or> m = 9 \<or> m = 10 \<or> m = 11 \<or> m = 12"
proof -
  assume "1 \<le> m" "m \<le> 12"
  then have "m \<in> set [1..12]" by simp
  also have "[1..12] = [1,2,3,4,5,6,7,8,9,10,11,12::int]" by code_simp
  finally show ?thesis by simp
qed

lemma month_of_yday_aux:
  assumes "0 \<le> n" "n < 365 + (if L then 1 else 0)"
  shows "case month_of_yday n L of (m, p) \<Rightarrow> 1 \<le> m \<and> m \<le> 12 \<and>
     p = DAYS_BEFORE_MONTH ! nat m + (if m > 2 \<and> L then 1 else 0) \<and> p \<le> n \<and>
     n < p + (if m = 2 \<and> L then 29 else DAYS_IN_MONTH ! nat m)"
proof -
  define m where "m = (n + 50) div 32"
  have b: "32 * m - 50 \<le> n" "n < 32 * m - 18" using div32[of "n+50" m] m_def by auto
  have "n < 366" using assms(2) by (simp split: if_splits)
  with b assms(1) have "1 \<le> m" "m \<le> 12" by arith+
  from int_1_12[OF this] show ?thesis
    using b assms m_def[symmetric]
    by (elim disjE) (auto simp: month_of_yday_def DAYS_BEFORE_MONTH_def DAYS_IN_MONTH_def split: if_splits)
qed
lemma succ_mod_zero:
  fixes y r d :: int
  assumes "y mod d = r" "0 < d"
  shows "((y + 1) mod d = 0) = (r = d - 1)"
proof -
  have r: "0 \<le> r" "r < d" using assms by auto
  have eq: "(y + 1) mod d = (r + 1) mod d"
    using assms(1) by (metis mod_add_left_eq)
  show ?thesis
  proof (cases "r + 1 < d")
    case True
    then have "(r + 1) mod d = r + 1" using r by simp
    then show ?thesis using r True eq by simp
  next
    case False
    then have "r + 1 = d" using r by simp
    then show ?thesis using eq by auto
  qed
qed

lemma dby_decomp:
  fixes a b c e :: int
  assumes "0 \<le> b" "b \<le> 3" "0 \<le> c" "c \<le> 24" "0 \<le> e" "e \<le> 3"
  shows "days_before_year (400 * a + 100 * b + 4 * c + e + 1)
         = 146097 * a + 36524 * b + 1461 * c + 365 * e"
proof -
  define y where "y = 400 * a + 100 * b + 4 * c + e"
  have d4: "y div 4 = 100 * a + 25 * b + c"
    by (rule int_div_pos_eq[where r = e]) (use assms in \<open>simp_all add: y_def\<close>)
  have d100: "y div 100 = 4 * a + b"
    by (rule int_div_pos_eq[where r = "4 * c + e"]) (use assms in \<open>simp_all add: y_def\<close>)
  have d400: "y div 400 = a"
    by (rule int_div_pos_eq[where r = "100 * b + 4 * c + e"]) (use assms in \<open>simp_all add: y_def\<close>)
  show ?thesis
    unfolding days_before_year_def Let_def
    using d4 d100 d400 by (simp add: y_def)
qed

lemma is_leap_decomp:
  fixes a b c e :: int
  assumes "0 \<le> b" "b \<le> 3" "0 \<le> c" "c \<le> 24" "0 \<le> e" "e \<le> 3"
  shows "is_leap (400 * a + 100 * b + 4 * c + e + 1) = (e = 3 \<and> (c \<noteq> 24 \<or> b = 3))"
proof -
  define y where "y = 400 * a + 100 * b + 4 * c + e"
  have m4: "y mod 4 = e"
    by (rule int_mod_pos_eq[where q = "100 * a + 25 * b + c"]) (use assms in \<open>simp_all add: y_def\<close>)
  have m100: "y mod 100 = 4 * c + e"
    by (rule int_mod_pos_eq[where q = "4 * a + b"]) (use assms in \<open>simp_all add: y_def\<close>)
  have m400: "y mod 400 = 100 * b + 4 * c + e"
    by (rule int_mod_pos_eq[where q = a]) (use assms in \<open>simp_all add: y_def\<close>)
  have s4: "(y + 1) mod 4 = 0 \<longleftrightarrow> e = 3"
    using succ_mod_zero[OF m4] by simp
  have s100: "(y + 1) mod 100 = 0 \<longleftrightarrow> 4 * c + e = 99"
    using succ_mod_zero[OF m100] by simp
  have s400: "(y + 1) mod 400 = 0 \<longleftrightarrow> 100 * b + 4 * c + e = 399"
    using succ_mod_zero[OF m400] by simp
  have "is_leap (y + 1) = (e = 3 \<and> (c \<noteq> 24 \<or> b = 3))"
    unfolding is_leap_def s4 s100 s400 using assms by auto
  then show ?thesis by (simp add: y_def)
qed

lemma ord2ymd_sound:
  assumes "1 \<le> n"
  shows "case ord2ymd n of (y, m, d) \<Rightarrow>
           ymd2ord y m d = n \<and> 1 \<le> m \<and> m \<le> 12 \<and> 1 \<le> d \<and> d \<le> days_in_month y m"
proof -
  define N where "N = n - 1"
  define a where "a = N div 146097"
  define r1 where "r1 = N mod 146097"
  define b where "b = r1 div 36524"
  define r2 where "r2 = r1 mod 36524"
  define c where "c = r2 div 1461"
  define r3 where "r3 = r2 mod 1461"
  define e where "e = r3 div 365"
  define k where "k = r3 mod 365"
  have N: "N = 146097 * a + r1" "0 \<le> r1" "r1 < 146097" by (simp_all add: a_def r1_def)
  have R1: "r1 = 36524 * b + r2" "0 \<le> r2" "r2 < 36524" by (simp_all add: b_def r2_def)
  have R2: "r2 = 1461 * c + r3" "0 \<le> r3" "r3 < 1461" by (simp_all add: c_def r3_def)
  have R3: "r3 = 365 * e + k" "0 \<le> k" "k < 365" by (simp_all add: e_def k_def)
  have bb: "0 \<le> b" "b \<le> 4" using N R1 by linarith+
  have cb: "0 \<le> c" "c \<le> 24" using R1 R2 by linarith+
  have eb: "0 \<le> e" "e \<le> 4" using R2 R3 by linarith+
  define Y where "Y = 400 * a + 100 * b + 4 * c + e + 1"
  have Y: "a * 400 + 1 + b * 100 + c * 4 + e = Y" by (simp add: Y_def)
  have unfold: "ord2ymd n =
     (if e = 4 \<or> b = 4 then (Y - 1, 12, 31)
      else case month_of_yday k (e = 3 \<and> (c \<noteq> 24 \<or> b = 3)) of
             (m, p) \<Rightarrow> (Y, m, k - p + 1))"
    by (simp add: ord2ymd_def Let_def DI400Y_def DI100Y_def DI4Y_def
        N_def[symmetric] a_def[symmetric] r1_def[symmetric] b_def[symmetric] r2_def[symmetric]
        c_def[symmetric] r3_def[symmetric] e_def[symmetric] k_def[symmetric] Y)
  have nN: "n = 146097 * a + 36524 * b + 1461 * c + 365 * e + k + 1"
    using N(1) R1(1) R2(1) R3(1) by (simp add: N_def)
  consider (b4) "b = 4" | (e4) "b \<le> 3" "e = 4" | (gen) "b \<le> 3" "e \<le> 3"
    using bb eb by linarith
  then show ?thesis
  proof cases
    case b4
    have z: "r2 = 0" "c = 0" "r3 = 0" "e = 0" "k = 0"
      using b4 N R1 R2 R3 cb eb by linarith+
    have Y1: "Y - 1 = 400 * a + 100 * 3 + 4 * 24 + 3 + 1" by (simp add: Y_def b4 z)
    have "days_before_year (Y - 1) = 146097 * a + 36524 * 3 + 1461 * 24 + 365 * 3"
      unfolding Y1 by (rule dby_decomp) simp_all
    moreover have "is_leap (Y - 1)"
      unfolding Y1 by (subst is_leap_decomp) simp_all
    moreover have res: "ord2ymd n = (Y - 1, 12, 31)" by (simp add: unfold b4)
    ultimately show ?thesis
      unfolding res
      by (simp add: b4 ymd2ord_def days_before_month_def days_in_month_def
          DAYS_BEFORE_MONTH_def DAYS_IN_MONTH_def nN z)
  next
    case e4
    have z: "k = 0" using e4 R2 R3 by linarith
    have c23: "c \<le> 23" using e4 R1 R2 R3 z by linarith
    have Y1: "Y - 1 = 400 * a + 100 * b + 4 * c + 3 + 1" by (simp add: Y_def e4)
    have "days_before_year (Y - 1) = 146097 * a + 36524 * b + 1461 * c + 365 * 3"
      unfolding Y1 by (rule dby_decomp) (use bb cb e4 in simp_all)
    moreover have "is_leap (Y - 1)"
      unfolding Y1 by (subst is_leap_decomp) (use bb cb e4 c23 in simp_all)
    moreover have res: "ord2ymd n = (Y - 1, 12, 31)" by (simp add: unfold e4)
    ultimately show ?thesis
      unfolding res
      by (simp add: e4 ymd2ord_def days_before_month_def days_in_month_def
          DAYS_BEFORE_MONTH_def DAYS_IN_MONTH_def nN z)
  next
    case gen
    define L where "L = (e = 3 \<and> (c \<noteq> 24 \<or> b = 3))"
    obtain m p where mp: "month_of_yday k L = (m, p)" by (cases "month_of_yday k L")
    have dby: "days_before_year Y = 146097 * a + 36524 * b + 1461 * c + 365 * e"
      unfolding Y_def by (rule dby_decomp) (use bb cb eb gen in simp_all)
    have leap: "is_leap Y = L"
      unfolding Y_def L_def by (rule is_leap_decomp) (use bb cb eb gen in simp_all)
    have "k < 365 + (if L then 1 else 0)" using R3 by simp
    from month_of_yday_aux[OF R3(2) this] mp
    have M: "1 \<le> m" "m \<le> 12" "p = DAYS_BEFORE_MONTH ! nat m + (if m > 2 \<and> L then 1 else 0)"
      "p \<le> k" "k < p + (if m = 2 \<and> L then 29 else DAYS_IN_MONTH ! nat m)"
      by simp_all
    have ne: "\<not> (e = 4 \<or> b = 4)" using gen by simp
    have res: "ord2ymd n = (Y, m, k - p + 1)"
      using mp ne by (simp add: unfold L_def)
    show ?thesis
      unfolding res
      using M dby leap
      by (simp add: ymd2ord_def days_before_month_def days_in_month_def nN)
  qed
qed

lemma div_succ:
  fixes y d :: int
  assumes "0 < d"
  shows "y div d = (y - 1) div d + (if y mod d = 0 then 1 else 0)"
proof (cases "y mod d = 0")
  case True
  have e: "y = d * (y div d)" using True by (metis add.right_neutral mult_div_mod_eq)
  have "(y - 1) div d = y div d - 1"
  proof (rule int_div_pos_eq[where r = "d - 1"])
    have "y - 1 = d * (y div d) - 1" using e by simp
    also have "\<dots> = d * (y div d - 1) + (d - 1)" by (simp add: algebra_simps)
    finally show "y - 1 = d * (y div d - 1) + (d - 1)" .
  qed (use assms in simp_all)
  then show ?thesis using True by simp
next
  case False
  have "(y - 1) div d = y div d"
  proof (rule int_div_pos_eq[where r = "y mod d - 1"])
    show "y - 1 = d * (y div d) + (y mod d - 1)" by simp
    have "0 \<le> y mod d" using assms by simp
    then show "0 \<le> y mod d - 1" using False by simp
    show "y mod d - 1 < d" using pos_mod_bound[OF assms, of y] by simp
  qed
  then show ?thesis using False by simp
qed


lemma dby_succ: "days_before_year (y + 1) = days_before_year y + (if is_leap y then 366 else 365)"
proof -
  define q4 where "q4 = (y - 1) div 4"
  define q100 where "q100 = (y - 1) div 100"
  define q400 where "q400 = (y - 1) div 400"
  define p4 where "p4 = (y mod 4 = 0)"
  define p100 where "p100 = (y mod 100 = 0)"
  define p400 where "p400 = (y mod 400 = 0)"
  define b4 where "b4 = (if p4 then 1 else 0 :: int)"
  define b100 where "b100 = (if p100 then 1 else 0 :: int)"
  define b400 where "b400 = (if p400 then 1 else 0 :: int)"
  have d4: "y div 4 = q4 + b4" unfolding q4_def b4_def p4_def by (rule div_succ) simp
  have d100: "y div 100 = q100 + b100" unfolding q100_def b100_def p100_def by (rule div_succ) simp
  have d400: "y div 400 = q400 + b400" unfolding q400_def b400_def p400_def by (rule div_succ) simp
  have "(4::int) dvd 100" "(100::int) dvd 400" by simp_all
  then have i1: "p100 \<Longrightarrow> p4" and i2: "p400 \<Longrightarrow> p100"
    unfolding p4_def p100_def p400_def
    by (meson dvd_trans mod_eq_0_iff_dvd)+
  have il: "is_leap y = (p4 \<and> (\<not> p100 \<or> p400))"
    unfolding is_leap_def p4_def p100_def p400_def ..
  have leap: "(if is_leap y then 1 else 0) = b4 - b100 + b400"
    unfolding il b4_def b100_def b400_def using i1 i2 by auto
  have e1: "days_before_year (y + 1) = y * 365 + (q4 + b4) - (q100 + b100) + (q400 + b400)"
    unfolding days_before_year_def Let_def by (simp add: d4 d100 d400)
  have e2: "days_before_year y = (y - 1) * 365 + q4 - q100 + q400"
    unfolding days_before_year_def Let_def q4_def q100_def q400_def by simp
  have "days_before_year (y + 1) = days_before_year y + 365 + (b4 - b100 + b400)"
    unfolding e1 e2 by (simp add: algebra_simps)
  then show ?thesis using leap by (simp split: if_splits)
qed

lemma dby_mono: "y \<le> y' \<Longrightarrow> days_before_year y \<le> days_before_year y'"
proof (induction y' rule: int_ge_induct)
  case base
  then show ?case by simp
next
  case (step i)
  have "days_before_year i \<le> days_before_year (i + 1)" by (simp add: dby_succ)
  with step show ?case by simp
qed

lemma yday_bounds:
  assumes "1 \<le> m" "m \<le> 12" "1 \<le> d" "d \<le> days_in_month y m"
  shows "1 \<le> days_before_month y m + d"
    and "days_before_month y m + d \<le> (if is_leap y then 366 else 365)"
proof -
  from int_1_12[OF assms(1,2)] show "1 \<le> days_before_month y m + d"
    using assms(3)
    by (elim disjE) (simp_all add: days_before_month_def DAYS_BEFORE_MONTH_def)
  from int_1_12[OF assms(1,2)]
  show "days_before_month y m + d \<le> (if is_leap y then 366 else 365)"
    using assms(4)
    by (elim disjE)
      (simp_all add: days_before_month_def days_in_month_def DAYS_BEFORE_MONTH_def
        DAYS_IN_MONTH_def split: if_splits)
qed

lemma ymd2ord_bounds:
  assumes "1 \<le> m" "m \<le> 12" "1 \<le> d" "d \<le> days_in_month y m"
  shows "days_before_year y < ymd2ord y m d" and "ymd2ord y m d \<le> days_before_year (y + 1)"
  using yday_bounds[OF assms] by (simp_all add: ymd2ord_def dby_succ)

lemma ymd2ord_year_unique:
  assumes "1 \<le> m" "m \<le> 12" "1 \<le> d" "d \<le> days_in_month y m"
    and "1 \<le> m'" "m' \<le> 12" "1 \<le> d'" "d' \<le> days_in_month y' m'"
    and "ymd2ord y m d = ymd2ord y' m' d'"
  shows "y = y'"
proof (rule ccontr)
  assume "y \<noteq> y'"
  then consider "y + 1 \<le> y'" | "y' + 1 \<le> y" by linarith
  then show False
  proof cases
    case 1
    have "ymd2ord y m d \<le> days_before_year (y + 1)" using ymd2ord_bounds(2)[OF assms(1-4)] .
    also have "\<dots> \<le> days_before_year y'" using dby_mono[OF 1] .
    also have "\<dots> < ymd2ord y' m' d'" using ymd2ord_bounds(1)[OF assms(5-8)] .
    finally show False using assms(9) by simp
  next
    case 2
    have "ymd2ord y' m' d' \<le> days_before_year (y' + 1)" using ymd2ord_bounds(2)[OF assms(5-8)] .
    also have "\<dots> \<le> days_before_year y" using dby_mono[OF 2] .
    also have "\<dots> < ymd2ord y m d" using ymd2ord_bounds(1)[OF assms(1-4)] .
    finally show False using assms(9) by simp
  qed
qed

lemma dbm_step:
  assumes "1 \<le> m" "m \<le> 11"
  shows "days_before_month y (m + 1) = days_before_month y m + days_in_month y m"
proof -
  have "m \<le> 12" using assms by simp
  from int_1_12[OF assms(1) this] show ?thesis
    using assms(2)
    by (elim disjE)
      (simp_all add: days_before_month_def days_in_month_def DAYS_BEFORE_MONTH_def
        DAYS_IN_MONTH_def)
qed

lemma dim_nonneg:
  assumes "1 \<le> m" "m \<le> 12"
  shows "0 \<le> days_in_month y m"
  using int_1_12[OF assms]
  by (elim disjE) (simp_all add: days_in_month_def DAYS_IN_MONTH_def)

lemma dbm_mono:
  assumes "1 \<le> m" "m \<le> m'" "m' \<le> 12"
  shows "days_before_month y m \<le> days_before_month y m'"
  using assms(2,3)
proof (induction m' rule: int_ge_induct)
  case base
  then show ?case by simp
next
  case (step i)
  have "days_before_month y (i + 1) = days_before_month y i + days_in_month y i"
    using step assms(1) by (intro dbm_step) simp_all
  moreover have "0 \<le> days_in_month y i" using step assms(1) by (intro dim_nonneg) simp_all
  ultimately show ?case using step by simp
qed

lemma month_day_unique:
  assumes "1 \<le> m" "m \<le> 12" "1 \<le> d" "d \<le> days_in_month y m"
    and "1 \<le> m'" "m' \<le> 12" "1 \<le> d'" "d' \<le> days_in_month y m'"
    and eq: "days_before_month y m + d = days_before_month y m' + d'"
  shows "m = m' \<and> d = d'"
proof -
  have lt: "False" if "1 \<le> a" "a < b" "b \<le> 12" "e \<le> days_in_month y a" "1 \<le> f"
      "days_before_month y a + e = days_before_month y b + f" for a b e f
  proof -
    have "days_before_month y a + e \<le> days_before_month y a + days_in_month y a"
      using that by simp
    also have "\<dots> = days_before_month y (a + 1)"
      using that by (intro dbm_step[symmetric]) simp_all
    also have "\<dots> \<le> days_before_month y b"
      using that by (intro dbm_mono) simp_all
    also have "\<dots> < days_before_month y b + f" using that by simp
    finally show False using that by simp
  qed
  have "m = m'"
  proof (rule ccontr)
    assume "m \<noteq> m'"
    then consider "m < m'" | "m' < m" by linarith
    then show False
    proof cases
      case 1
      show False by (rule lt[OF assms(1) 1 assms(6) assms(4) assms(7) eq])
    next
      case 2
      show False by (rule lt[OF assms(5) 2 assms(2) assms(8) assms(3) eq[symmetric]])
    qed
  qed
  then show ?thesis using eq by simp
qed

lemma dby_1: "days_before_year 1 = 0"
  by (simp add: days_before_year_def)

lemma dby_10000: "days_before_year 10000 = 3652059"
  by (simp add: days_before_year_def)

lemma ymd2ord_range:
  assumes "check_date_fields y m d"
  shows "1 \<le> ymd2ord y m d" and "ymd2ord y m d \<le> MAXORDINAL"
proof -
  have v: "1 \<le> m" "m \<le> 12" "1 \<le> d" "d \<le> days_in_month y m" and yr: "1 \<le> y" "y \<le> 9999"
    using assms by (simp_all add: check_date_fields_def MINYEAR_def MAXYEAR_def)
  have "days_before_year 1 \<le> days_before_year y" using yr by (intro dby_mono) simp
  then show "1 \<le> ymd2ord y m d" using ymd2ord_bounds(1)[OF v] by (simp add: dby_1)
  have "days_before_year (y + 1) \<le> days_before_year 10000" using yr by (intro dby_mono) simp
  then show "ymd2ord y m d \<le> MAXORDINAL"
    using ymd2ord_bounds(2)[OF v] by (simp add: dby_10000 MAXORDINAL_def)
qed

lemma ord2ymd_ymd2ord:
  assumes "check_date_fields y m d"
  shows "ord2ymd (ymd2ord y m d) = (y, m, d)"
proof -
  have v: "1 \<le> m" "m \<le> 12" "1 \<le> d" "d \<le> days_in_month y m"
    using assms by (simp_all add: check_date_fields_def)
  obtain y' m' d' where r: "ord2ymd (ymd2ord y m d) = (y', m', d')"
    by (cases "ord2ymd (ymd2ord y m d)") auto
  from ord2ymd_sound[OF ymd2ord_range(1)[OF assms]] r
  have s: "ymd2ord y' m' d' = ymd2ord y m d" "1 \<le> m'" "m' \<le> 12" "1 \<le> d'"
    "d' \<le> days_in_month y' m'"
    by simp_all
  have y: "y' = y"
    by (rule ymd2ord_year_unique[OF s(2,3,4,5) v s(1)])
  have "days_before_month y m' + d' = days_before_month y m + d"
    using s(1) by (simp add: ymd2ord_def y)
  from month_day_unique[OF s(2,3,4) s(5)[unfolded y] v this]
  show ?thesis using r y by simp
qed

subsection \<open>Parsed datetimes and the fixed-offset arithmetic\<close>

lemma new_datetime_valid: "new_datetime y m d hh mm ss = Inr dt \<Longrightarrow> valid_datetime dt"
  by (auto simp: new_datetime_def valid_datetime_def split: if_splits)

lemma strptime_valid: "strptime s f = Inr dt \<Longrightarrow> valid_datetime dt"
  by (auto simp: strptime_def split: list.splits if_splits sum.splits prod.splits
      dest: new_datetime_valid)

lemma try_formats_valid: "try_formats s fs = Inr (Some dt) \<Longrightarrow> valid_datetime dt"
proof (induction fs)
  case Nil
  then show ?case by simp
next
  case (Cons f fs)
  then show ?case
    by (auto split: sum.splits error.splits dest: strptime_valid)
qed

lemma parse_local_time_valid: "parse_local_time s = Inr dt \<Longrightarrow> valid_datetime dt"
  by (auto simp: parse_local_time_def split: sum.splits option.splits dest: try_formats_valid)

lemma digit_not_special:
  assumes "is_digit c"
  shows "\<not> int_isspace c" "c \<noteq> CHR ''+''" "c \<noteq> CHR ''-''" "c \<noteq> CHR ''_''" "c \<noteq> CHR '':''"
    "0 \<le> digit_val c" "digit_val c \<le> 9"
  using assms by (auto simp: is_digit_def int_isspace_def code_point_def digit_val_def Let_def)

lemma py_int_two_digits:
  assumes "is_digit a" "is_digit b"
  shows "py_int [a, b] = Some (digit_val a * 10 + digit_val b)"
  using assms digit_not_special[OF assms(1)] digit_not_special[OF assms(2)]
  by (simp add: py_int_def int_strip_def literal_value_def int_max_str_digits_def)

lemma py_int_blanks:
  "py_int (CHR 0x1F # ''4'') = None" "py_int (CHR 0xA0 # ''4'') = Some 4"
  "py_int '' 04 '' = Some 4" "py_int ''-1_0'' = Some (- 10)" "py_int ''+ 4'' = None"
  by code_simp+

lemma py_int_too_long: "py_int (replicate 4301 CHR ''1'') = None"
proof -
  let ?s = "replicate 4301 CHR ''1''"
  have d: "is_digit CHR ''1''" and ns: "\<not> int_isspace CHR ''1''" by code_simp+
  have e: "?s = CHR ''1'' # replicate 4300 CHR ''1''"
    using replicate_Suc[of 4300 "CHR ''1''"] by simp
  have r: "rev ?s = ?s" by simp
  have dw: "dropWhile int_isspace ?s = ?s" unfolding e using ns by simp
  have st: "int_strip ?s = ?s" unfolding int_strip_def by (simp only: dw r)
  have f: "filter is_digit ?s = ?s" using d by simp
  have l: "literal_value ?s = None"
    unfolding literal_value_def f by (simp add: int_max_str_digits_def)
  have "py_int ?s = literal_value ?s"
    unfolding py_int_def st unfolding e by simp
  then show ?thesis using l by simp
qed

lemma split_offset:
  assumes "is_digit h1" "is_digit h2" "is_digit m1" "is_digit m2"
  shows "split_on CHR '':'' [h1, h2, CHR '':'', m1, m2] = [[h1, h2], [m1, m2]]"
  using digit_not_special(5)[OF assms(1)] digit_not_special(5)[OF assms(2)]
    digit_not_special(5)[OF assms(3)] digit_not_special(5)[OF assms(4)]
  by simp

lemma timedelta_ok_small:
  assumes "- 86400 * 999999999 \<le> t" "t < 86400 * 999999999"
  shows "timedelta_ok t"
proof -
  have "t div 86400 \<le> (86400 * 999999999) div 86400"
    using assms(2) by (intro zdiv_mono1) simp_all
  moreover have "(- 86400 * 999999999) div 86400 \<le> t div 86400"
    using assms(1) by (intro zdiv_mono1) simp_all
  ultimately show ?thesis by (simp add: timedelta_ok_def)
qed


lemma sod_bounds:
  assumes "valid_datetime dt"
  shows "0 \<le> seconds_of_day dt" "seconds_of_day dt < 86400"
  using assms by (auto simp: valid_datetime_def check_time_fields_def seconds_of_day_def)

lemma hms_recompose:
  fixes secs :: int
  shows "secs mod 3600 mod 60 + secs mod 3600 div 60 * 60 + secs div 3600 * 3600 = secs"
proof -
  have "secs mod 3600 mod 60 + secs mod 3600 div 60 * 60 = secs mod 3600"
    by (simp add: mod_div_mult_eq)
  then show ?thesis by (simp add: mod_div_mult_eq)
qed

lemma datetime_add_result:
  assumes "timedelta_ok (toordinal dt * 86400 + seconds_of_day dt + other)"
    and "0 < (toordinal dt * 86400 + seconds_of_day dt + other) div 86400"
    and "(toordinal dt * 86400 + seconds_of_day dt + other) div 86400 \<le> MAXORDINAL"
  shows "\<exists>r. datetime_add dt other = Inr r
            \<and> toordinal r = (toordinal dt * 86400 + seconds_of_day dt + other) div 86400
            \<and> seconds_of_day r = (toordinal dt * 86400 + seconds_of_day dt + other) mod 86400"
proof -
  define D where "D = toordinal dt * 86400 + seconds_of_day dt + other"
  obtain y m d where o: "ord2ymd (D div 86400) = (y, m, d)" by (cases "ord2ymd (D div 86400)") auto
  have "1 \<le> D div 86400" using assms(2) by (simp add: D_def)
  from ord2ymd_sound[OF this] o have s: "ymd2ord y m d = D div 86400" by simp
  let ?r = "\<lparr>year = y, month = m, day = d, hour = D mod 86400 div 3600,
             minute = D mod 86400 mod 3600 div 60, second = D mod 86400 mod 3600 mod 60\<rparr>"
  have "datetime_add dt other = Inr ?r"
    using assms o by (simp add: datetime_add_def Let_def D_def[symmetric])
  moreover have "toordinal ?r = D div 86400" using s by (simp add: toordinal_def)
  moreover have "seconds_of_day ?r = D mod 86400"
    by (simp add: seconds_of_day_def hms_recompose)
  ultimately show ?thesis unfolding D_def by blast
qed

lemma datetime_add_overflow:
  assumes "\<not> (0 < (toordinal dt * 86400 + seconds_of_day dt + other) div 86400
             \<and> (toordinal dt * 86400 + seconds_of_day dt + other) div 86400 \<le> MAXORDINAL)"
  shows "datetime_add dt other = Inl OverflowError"
  using assms by (auto simp: datetime_add_def Let_def)

lemma datetime_add_back:
  assumes v: "valid_datetime dt"
    and eq: "toordinal r * 86400 + seconds_of_day r + other
             = toordinal dt * 86400 + seconds_of_day dt"
  shows "datetime_add r other = Inr dt"
proof -
  define T where "T = toordinal dt * 86400 + seconds_of_day dt"
  have c: "check_date_fields (year dt) (month dt) (day dt)"
    and t: "0 \<le> hour dt" "hour dt \<le> 23" "0 \<le> minute dt" "minute dt \<le> 59"
           "0 \<le> second dt" "second dt \<le> 59"
    using v by (simp_all add: valid_datetime_def check_time_fields_def)
  have ord: "1 \<le> toordinal dt" "toordinal dt \<le> MAXORDINAL"
    using ymd2ord_range[OF c] by (simp_all add: toordinal_def)
  have dv: "T div 86400 = toordinal dt"
    by (rule int_div_pos_eq[where r = "seconds_of_day dt"])
       (use sod_bounds[OF v] in \<open>simp_all add: T_def\<close>)
  have md: "T mod 86400 = seconds_of_day dt"
    by (rule int_mod_pos_eq[where q = "toordinal dt"])
       (use sod_bounds[OF v] in \<open>simp_all add: T_def\<close>)
  have hh: "seconds_of_day dt div 3600 = hour dt"
    by (rule int_div_pos_eq[where r = "minute dt * 60 + second dt"])
       (use t in \<open>simp_all add: seconds_of_day_def\<close>)
  have rem: "seconds_of_day dt mod 3600 = minute dt * 60 + second dt"
    by (rule int_mod_pos_eq[where q = "hour dt"])
       (use t in \<open>simp_all add: seconds_of_day_def\<close>)
  have mm: "(minute dt * 60 + second dt) div 60 = minute dt"
    by (rule int_div_pos_eq[where r = "second dt"]) (use t in simp_all)
  have ss: "(minute dt * 60 + second dt) mod 60 = second dt"
    by (rule int_mod_pos_eq[where q = "minute dt"]) (use t in simp_all)
  have ss2: "second dt mod 60 = second dt" "second dt div 60 = 0" using t by simp_all
  have ok: "timedelta_ok T"
    using ord dv by (simp add: timedelta_ok_def MAXORDINAL_def)
  have o: "ord2ymd (toordinal dt) = (year dt, month dt, day dt)"
    unfolding toordinal_def by (rule ord2ymd_ymd2ord[OF c])
  have "datetime_add r other = Inr \<lparr>year = year dt, month = month dt, day = day dt,
           hour = hour dt, minute = minute dt, second = second dt\<rparr>"
    using ok ord
    by (simp add: datetime_add_def Let_def eq T_def[symmetric] dv md hh rem mm ss ss2 o)
  then show ?thesis by simp
qed


lemma local_timestamp_eq:
  "local_timestamp dt = toordinal dt * 86400 + seconds_of_day dt - EPOCHORDINAL * 86400"
  by (simp add: local_timestamp_def seconds_of_day_def algebra_simps)

lemma div_86400_range:
  fixes D :: int
  assumes "0 < D div 86400" "D div 86400 \<le> 3652059"
  shows "86400 \<le> D" "D < 3652060 * 86400"
proof -
  have e: "D = 86400 * (D div 86400) + D mod 86400" by simp
  have m: "0 \<le> D mod 86400" "D mod 86400 < 86400" by simp_all
  show "86400 \<le> D" using e m assms(1) by linarith
  show "D < 3652060 * 86400" using e m assms(2) by linarith
qed

lemma apply_fixed_offset_value:
  assumes v: "valid_datetime dt"
    and unp: "unpack_ints (split_on CHR '':'' cs) = Inr (H, M)"
    and off: "off = (if c = CHR ''+'' then 1 else - 1) * (H * 3600 + M * 60)"
    and days: "days = (toordinal dt * 86400 + seconds_of_day dt - off) div 86400"
  shows "apply_fixed_offset dt (c # cs) =
           (if 0 < days \<and> days \<le> MAXORDINAL then Inr (local_timestamp dt - off)
            else Inl OverflowError)"
    and "0 < days \<and> days \<le> MAXORDINAL \<Longrightarrow>
           \<exists>utc_dt. datetime_sub dt off = Inr utc_dt
                  \<and> timestamp_utc utc_dt = local_timestamp dt - off
                  \<and> datetime_add utc_dt off = Inr dt"
proof -
  define sign :: int where "sign = (if c = CHR ''+'' then 1 else - 1)"
  define T where "T = toordinal dt * 86400 + seconds_of_day dt"
  define D where "D = T - off"
  have offe2: "sign * M * 60 + sign * H * 3600 = off" by (simp add: off sign_def algebra_simps)
  have c: "check_date_fields (year dt) (month dt) (day dt)"
    using v by (simp add: valid_datetime_def)
  have ord: "1 \<le> toordinal dt" "toordinal dt \<le> 3652059"
    using ymd2ord_range[OF c] by (simp_all add: toordinal_def MAXORDINAL_def)
  have Tb: "86400 \<le> T" "T < 3652060 * 86400"
    using ord sod_bounds[OF v] by (simp_all add: T_def)
  have td: "new_timedelta (sign * H) (sign * M)
            = (if timedelta_ok off then Inr off else Inl OverflowError)"
    unfolding new_timedelta_def Let_def offe2 by simp
  have daysD: "days = D div 86400" by (simp add: days D_def T_def)
  have D': "toordinal dt * 86400 + seconds_of_day dt + - off = D" by (simp add: D_def T_def)
  have afo: "apply_fixed_offset dt (c # cs) =
      (if timedelta_ok off
       then (case datetime_sub dt off of
               Inl e \<Rightarrow> Inl e | Inr utc_dt \<Rightarrow> Inr (timestamp_utc utc_dt))
       else Inl OverflowError)"
    unfolding apply_fixed_offset_def Let_def
    using unp td by (simp add: sign_def)
  have inr: "timedelta_ok off \<and>
             (\<exists>utc_dt. datetime_sub dt off = Inr utc_dt
                  \<and> timestamp_utc utc_dt = local_timestamp dt - off
                  \<and> datetime_add utc_dt off = Inr dt)"
    if r: "0 < days \<and> days \<le> MAXORDINAL"
  proof -
    have Db: "86400 \<le> D" "D < 3652060 * 86400"
      using div_86400_range[of D] r by (simp_all add: daysD MAXORDINAL_def)
    have ook: "timedelta_ok off" using Db Tb by (intro timedelta_ok_small) (simp_all add: D_def)
    have nok: "timedelta_ok (- off)"
      using Db Tb by (intro timedelta_ok_small) (simp_all add: D_def)
    have Dok: "timedelta_ok D" using Db by (intro timedelta_ok_small) simp_all
    have sub: "datetime_sub dt off = datetime_add dt (- off)"
      using nok by (simp add: datetime_sub_def)
    from datetime_add_result[of dt "- off", unfolded D'] Dok r daysD
    obtain u where u: "datetime_add dt (- off) = Inr u" "toordinal u = D div 86400"
      "seconds_of_day u = D mod 86400"
      by auto
    have "timestamp_utc u = D - EPOCHORDINAL * 86400"
      by (simp add: timestamp_utc_def u algebra_simps)
    then have ts: "timestamp_utc u = local_timestamp dt - off"
      by (simp add: local_timestamp_eq D_def T_def)
    have "toordinal u * 86400 + seconds_of_day u + off
          = toordinal dt * 86400 + seconds_of_day dt"
      by (simp add: u D_def T_def)
    from datetime_add_back[OF v this] u(1) ts ook show ?thesis by (auto simp: sub)
  qed
  show "apply_fixed_offset dt (c # cs) =
           (if 0 < days \<and> days \<le> MAXORDINAL then Inr (local_timestamp dt - off)
            else Inl OverflowError)"
  proof (cases "0 < days \<and> days \<le> MAXORDINAL")
    case True
    from inr[OF True] show ?thesis using True by (auto simp: afo)
  next
    case False
    then have "datetime_add dt (- off) = Inl OverflowError"
      using datetime_add_overflow[of dt "- off", unfolded D'] by (simp add: daysD)
    then have "datetime_sub dt off = Inl OverflowError" by (simp add: datetime_sub_def)
    then show ?thesis using False by (simp add: afo)
  qed
  show "\<exists>utc_dt. datetime_sub dt off = Inr utc_dt
                  \<and> timestamp_utc utc_dt = local_timestamp dt - off
                  \<and> datetime_add utc_dt off = Inr dt"
    if "0 < days \<and> days \<le> MAXORDINAL"
    using inr[OF that] by simp
qed

lemma unpack_signed_offset:
  assumes "is_digit h1" "is_digit h2" "is_digit m1" "is_digit m2"
  shows "unpack_ints (split_on CHR '':'' [h1, h2, CHR '':'', m1, m2])
         = Inr (digit_val h1 * 10 + digit_val h2, digit_val m1 * 10 + digit_val m2)"
  by (simp add: split_offset[OF assms] py_int_two_digits assms del: split_on.simps)

subsection \<open>Looking up a local time in a zone\<close>

lemma bisect_loop_correct:
  assumes "sorted a" "lo \<le> hi" "hi \<le> length a"
    and "\<forall>j<lo. a ! j \<le> x" "\<forall>j. hi \<le> j \<and> j < length a \<longrightarrow> x < a ! j"
  shows "bisect_loop a x lo hi \<le> length a
         \<and> (\<forall>j<bisect_loop a x lo hi. a ! j \<le> x)
         \<and> (\<forall>j. bisect_loop a x lo hi \<le> j \<and> j < length a \<longrightarrow> x < a ! j)"
  using assms
proof (induction a x lo hi rule: bisect_loop.induct)
  case (1 a x lo hi)
  show ?case
  proof (cases "lo < hi")
    case False
    then have "bisect_loop a x lo hi = lo" by (subst bisect_loop.simps) simp
    moreover have "lo = hi" using False "1.prems"(2) by simp
    ultimately show ?thesis using "1.prems" by simp
  next
    case True
    define mid where "mid = (lo + hi) div 2"
    have m: "lo \<le> mid" "mid < hi" using True by (simp_all add: mid_def)
    show ?thesis
    proof (cases "x < a ! mid")
      case lt: True
      have e: "bisect_loop a x lo hi = bisect_loop a x lo mid"
        using True lt by (subst bisect_loop.simps) (simp add: mid_def Let_def)
      have up: "\<forall>j. mid \<le> j \<and> j < length a \<longrightarrow> x < a ! j"
      proof (intro allI impI)
        fix j assume j: "mid \<le> j \<and> j < length a"
        then have "a ! mid \<le> a ! j" using "1.prems"(1) by (simp add: sorted_nth_mono)
        then show "x < a ! j" using lt by simp
      qed
      have "bisect_loop a x lo mid \<le> length a
         \<and> (\<forall>j<bisect_loop a x lo mid. a ! j \<le> x)
         \<and> (\<forall>j. bisect_loop a x lo mid \<le> j \<and> j < length a \<longrightarrow> x < a ! j)"
        using "1.IH"(1)[OF True mid_def lt "1.prems"(1)] m "1.prems"(3,4) up by simp
      then show ?thesis unfolding e by blast
    next
      case ge: False
      have e: "bisect_loop a x lo hi = bisect_loop a x (mid + 1) hi"
        using True ge by (subst bisect_loop.simps) (simp add: mid_def Let_def)
      have low: "\<forall>j<mid + 1. a ! j \<le> x"
      proof (intro allI impI)
        fix j assume j: "j < mid + 1"
        have "mid < length a" using m "1.prems"(3) by simp
        then have "a ! j \<le> a ! mid" using "1.prems"(1) j by (simp add: sorted_nth_mono)
        then show "a ! j \<le> x" using ge by simp
      qed
      have "bisect_loop a x (mid + 1) hi \<le> length a
         \<and> (\<forall>j<bisect_loop a x (mid + 1) hi. a ! j \<le> x)
         \<and> (\<forall>j. bisect_loop a x (mid + 1) hi \<le> j \<and> j < length a \<longrightarrow> x < a ! j)"
        using "1.IH"(2)[OF True mid_def ge "1.prems"(1)] m "1.prems"(3,5) low by simp
      then show ?thesis unfolding e by blast
    qed
  qed
qed

lemma bisect_right_between:
  assumes "sorted a" "i < length a" "a ! i \<le> x"
    and "Suc i < length a \<longrightarrow> x < a ! Suc i"
  shows "bisect_right a x = Suc i"
proof -
  define r where "r = bisect_right a x"
  have R: "r \<le> length a" "\<forall>j<r. a ! j \<le> x" "\<forall>j. r \<le> j \<and> j < length a \<longrightarrow> x < a ! j"
    using bisect_loop_correct[of a 0 "length a" x] assms(1)
    by (simp_all add: r_def bisect_right_def)
  have "i < r"
  proof (rule ccontr)
    assume "\<not> i < r"
    then have "x < a ! i" using R(3) assms(2) by simp
    then show False using assms(3) by simp
  qed
  moreover have "r \<le> Suc i"
  proof (rule ccontr)
    assume "\<not> r \<le> Suc i"
    then have s: "Suc i < r" by simp
    then have "a ! Suc i \<le> x" using R(2) by blast
    moreover have "Suc i < length a" using s R(1) by simp
    ultimately show False using assms(4) by simp
  qed
  ultimately show ?thesis by (simp add: r_def)
qed

lemma ts_to_local_length:
  "length ts = length offs \<Longrightarrow>
   length (fst (ts_to_local prev ts offs)) = length ts
   \<and> length (snd (ts_to_local prev ts offs)) = length ts"
  by (induction prev ts offs rule: ts_to_local.induct) (auto split: prod.splits)

lemma ts_to_local_nth:
  "length ts = length offs \<Longrightarrow> i < length ts \<Longrightarrow>
   snd (ts_to_local prev ts offs) ! i
     = ts ! i + min (if i = 0 then prev else offs ! (i - 1)) (offs ! i)"
proof (induction prev ts offs arbitrary: i rule: ts_to_local.induct)
  case (1 prev t ts off offs)
  show ?case
  proof (cases i)
    case 0
    then show ?thesis by (simp split: prod.splits)
  next
    case (Suc k)
    with 1 have "snd (ts_to_local off ts offs) ! k
       = ts ! k + min (if k = 0 then off else offs ! (k - 1)) (offs ! k)"
      by simp
    then show ?thesis using Suc by (cases k) (auto split: prod.splits)
  qed
qed simp_all

lemma trans_local_True:
  assumes "length (ttinfos z) = length (trans_utc z)"
  shows "length (trans_local z True) = length (trans_utc z)"
    and "i < length (trans_utc z) \<Longrightarrow>
         trans_local z True ! i
           = trans_utc z ! i
             + min (if i = 0 then utcoff_first z else ttinfos z ! (i - 1)) (ttinfos z ! i)"
proof -
  have e: "trans_local z True = snd (ts_to_local (utcoff_first z) (trans_utc z) (ttinfos z))"
    by (simp add: trans_local_def split: prod.splits)
  show "length (trans_local z True) = length (trans_utc z)"
    unfolding e using ts_to_local_length[of "trans_utc z" "ttinfos z"] assms by simp
  show "trans_local z True ! i
           = trans_utc z ! i
             + min (if i = 0 then utcoff_first z else ttinfos z ! (i - 1)) (ttinfos z ! i)"
    if "i < length (trans_utc z)"
    unfolding e using ts_to_local_nth[of "trans_utc z" "ttinfos z" i] assms that by simp
qed

lemma sorted_nth_le_last:
  fixes xs :: "int list"
  assumes "sorted xs" "j < length xs"
  shows "xs ! j \<le> last xs"
proof -
  have ne: "xs \<noteq> []" using assms(2) by auto
  have "xs ! j \<le> xs ! (length xs - 1)"
    using assms by (intro sorted_nth_mono) auto
  then show ?thesis using ne by (simp add: last_conv_nth)
qed

lemma find_trans_table_fold:
  assumes len: "length (ttinfos z) = length (trans_utc z)"
    and srt: "sorted (trans_local z True)"
    and tf: "table_fold z i (local_timestamp dt) off_dst off_std T"
  shows "find_trans z dt True = off_std"
proof -
  define ts where "ts = local_timestamp dt"
  define lt where "lt = trans_local z True"
  have i: "i < length (trans_utc z)" and T: "T = trans_utc z ! i"
    and os: "off_std = ttinfos z ! i"
    and od: "off_dst = (if i = 0 then utcoff_first z else ttinfos z ! (i - 1))"
    and fb: "off_std < off_dst" and lo: "T + off_std \<le> ts" and hi: "ts < T + off_dst"
    and nx: "if Suc i < length (trans_utc z) then ts < lt ! Suc i
             else ts = T + off_std \<or> tz_after z = TTInfo off_std"
    using tf unfolding table_fold_def ts_def lt_def by (auto split: if_splits)
  have ll: "length lt = length (trans_utc z)" unfolding lt_def by (rule trans_local_True(1)[OF len])
  have li: "lt ! i = T + off_std"
    unfolding lt_def trans_local_True(2)[OF len i] using fb by (simp add: T os od)
  have il: "i < length lt" using i ll by simp
  have ne: "length lt \<noteq> 0" using il by (cases lt) auto
  have first: "\<not> ts < lt ! 0"
  proof -
    have "lt ! 0 \<le> lt ! i" using srt il by (simp add: lt_def sorted_nth_mono)
    then show ?thesis using li lo by simp
  qed
  have ft: "find_trans z dt True =
      (if ts > last lt then
           (case tz_after z of
              TZStr std dst start_rule end_rule \<Rightarrow>
                get_trans_info std dst start_rule end_rule ts (year dt) True
            | TTInfo off \<Rightarrow> off)
       else ttinfos z ! (bisect_right lt ts - 1))"
    using ne first by (simp add: find_trans_def Let_def ts_def[symmetric] lt_def[symmetric])
  have bis: "bisect_right lt ts = Suc i"
  proof (rule bisect_right_between)
    show "sorted lt" using srt by (simp add: lt_def)
    show "i < length lt" by (rule il)
    show "lt ! i \<le> ts" using li lo by simp
    show "Suc i < length lt \<longrightarrow> ts < lt ! Suc i" using nx ll by simp
  qed
  show ?thesis
  proof (cases "Suc i < length (trans_utc z)")
    case True
    then have "ts < lt ! Suc i" using nx by simp
    moreover have "lt ! Suc i \<le> last lt"
      using srt True ll unfolding lt_def[symmetric] by (intro sorted_nth_le_last) simp_all
    ultimately have "\<not> ts > last lt" by simp
    then show ?thesis by (simp add: ft bis os)
  next
    case False
    then have "length lt - 1 = i" using il ll by simp
    moreover have "lt \<noteq> []" using ne by simp
    ultimately have la: "last lt = lt ! i" by (simp add: last_conv_nth)
    from False nx have "ts = T + off_std \<or> tz_after z = TTInfo off_std" by simp
    then show ?thesis
    proof
      assume "ts = T + off_std"
      then have "\<not> ts > last lt" using la li by simp
      then show ?thesis by (simp add: ft bis os)
    next
      assume "tz_after z = TTInfo off_std"
      then show ?thesis by (simp add: ft bis os)
    qed
  qed
qed

lemma find_trans_rule_fold:
  assumes srt: "sorted (trans_local z True)"
    and rf: "rule_fold z (year dt) (local_timestamp dt) off_dst off_std T"
  shows "find_trans z dt True = off_std"
proof -
  define ts where "ts = local_timestamp dt"
  define lt where "lt = trans_local z True"
  from rf obtain start_rule end_rule where
    ta: "tz_after z = TZStr off_std off_dst start_rule end_rule"
    and fb: "off_std < off_dst"
    and af: "lt = [] \<or> last lt < ts"
    and T: "T = year_to_epoch end_rule (year dt) - off_dst"
    and lo: "T + off_std \<le> ts" and hi: "ts < T + off_dst"
    and st: "year_to_epoch start_rule (year dt) < T + off_std \<or> ts < year_to_epoch start_rule (year dt)"
    by (auto simp: rule_fold_def ts_def lt_def split: tz_after.splits)
  have gi: "get_trans_info off_std off_dst start_rule end_rule ts (year dt) True = off_std"
    using fb T lo hi st by (auto simp: get_trans_info_def Let_def)
  show ?thesis
  proof (cases "lt = []")
    case True
    then show ?thesis
      by (simp add: find_trans_def Let_def ts_def[symmetric] lt_def[symmetric] ta gi)
  next
    case False
    then have l: "last lt < ts" using af by simp
    have "lt ! 0 \<le> last lt"
      using srt False unfolding lt_def[symmetric] by (intro sorted_nth_le_last) simp_all
    then have "\<not> ts < lt ! 0" using l by simp
    then show ?thesis using l False
      by (simp add: find_trans_def Let_def ts_def[symmetric] lt_def[symmetric] ta gi)
  qed
qed

subsection \<open>Sensor resolution and the association upsert leave files and readings alone\<close>

lemma get_or_create_sensor_frame:
  assumes "get_or_create_sensor conn metadata lbl = (res, conn1)"
  shows "files (view conn1) = files (view conn)"
    and "temperature_readings (view conn1) = temperature_readings (view conn)"
    and "sensor_deployments (view conn1) = sensor_deployments (view conn)"
  using assms
  by (auto simp: get_or_create_sensor_def Let_def commit_def split: if_splits option.splits)

lemma upsert_sensor_deployment_frame:
  assumes "upsert_sensor_deployment conn sid did loc notes = (res, conn1)"
  shows "files (view conn1) = files (view conn)"
    and "temperature_readings (view conn1) = temperature_readings (view conn)"
    and "sensors (view conn1) = sensors (view conn)"
  using assms
  by (auto simp: upsert_sensor_deployment_def Let_def commit_def split: if_splits)

lemma get_or_create_sensor_no_registration:
  assumes "map_of metadata ''1-Wire/iButton Registration Number'' = None"
    and "map_of metadata ''Registration Number'' = None"
    and "map_of metadata ''Registration'' = None"
  shows "get_or_create_sensor conn metadata lbl
         = (Inl (ValueError ''Registration number not found in metadata''), conn)"
  using assms by (simp add: get_or_create_sensor_def Let_def str_or_def)

subsection \<open>The loop over the data rows\<close>

lemma read_rows_skip:
  "read_rows parse dsl i rows
     = read_rows parse dsl (max i (Suc dsl)) (drop (Suc dsl - i) rows)"
proof (induction rows arbitrary: i)
  case Nil
  then show ?case by simp
next
  case (Cons row rows)
  show ?case
  proof (cases "i \<le> dsl")
    case True
    then have "read_rows parse dsl i (row # rows) = read_rows parse dsl (Suc i) rows" by simp
    also have "\<dots> = read_rows parse dsl (max (Suc i) (Suc dsl)) (drop (Suc dsl - Suc i) rows)"
      by (rule Cons.IH)
    also have "\<dots> = read_rows parse dsl (max i (Suc dsl)) (drop (Suc dsl - i) (row # rows))"
    proof -
      have "max (Suc i) (Suc dsl) = max i (Suc dsl)" using True by simp
      moreover have "drop (Suc dsl - i) (row # rows) = drop (Suc dsl - Suc i) rows"
        using True by (simp add: Suc_diff_le)
      ultimately show ?thesis by simp
    qed
    finally show ?thesis .
  next
    case False
    then have "max i (Suc dsl) = i" "Suc dsl - i = 0" by simp_all
    then show ?thesis by simp
  qed
qed

lemma read_rows_data:
  assumes "dsl < i"
  shows "length (fst (read_rows parse dsl i rows)) = length (filter (is_reading \<circ> parse) rows)
       \<and> (\<forall>r\<in>set (fst (read_rows parse dsl i rows)). \<exists>row\<in>set rows. parse row = Reading r)
       \<and> length (filter is_row_warning (snd (read_rows parse dsl i rows)))
           = length (filter (is_warned \<circ> parse) rows)"
  using assms
proof (induction rows arbitrary: i)
  case Nil
  then show ?case by simp
next
  case (Cons row rows)
  have "dsl < Suc i" using Cons.prems by simp
  note ih = Cons.IH[OF this]
  show ?case
    using Cons.prems ih
    by (cases "parse row") (auto split: prod.splits)
qed

lemma parse_row_reading:
  "is_reading (parse_row tzdb pyfloat fid did sid tzn fo row) = well_formed_row tzdb pyfloat tzn fo row"
  by (auto simp: parse_row_def well_formed_row_def reaches_parse_def Let_def
      split: sum.splits option.splits)

lemma parse_row_warned:
  "is_warned (parse_row tzdb pyfloat fid did sid tzn fo row)
     = (reaches_parse row \<and> malformed_row tzdb pyfloat tzn fo row)"
  by (auto simp: parse_row_def malformed_row_def reaches_parse_def Let_def
      split: sum.splits option.splits)

lemma parse_row_passed:
  "(parse_row tzdb pyfloat fid did sid tzn fo row = Passed) = (\<not> reaches_parse row)"
  by (auto simp: parse_row_def reaches_parse_def Let_def split: sum.splits option.splits)

lemma parse_row_quality:
  "parse_row tzdb pyfloat fid did sid tzn fo row = Reading r \<Longrightarrow>
     quality_flag r = 0 \<and> r_file_id r = fid \<and> r_deployment_id r = did \<and> r_sensor_id r = sid"
  by (auto simp: parse_row_def Let_def split: sum.splits option.splits if_splits)


lemma insert_file_and_readings_rows:
  assumes "insert_file_and_readings tzdb pyfloat conn csv_path content metadata dsl
             did sid snotes tzn fo = (printed, conn3)"
    and "length (filter (well_formed_row tzdb pyfloat tzn fo) (drop dsl (csv_rows content))) = N"
    and "length (filter (\<lambda>row. reaches_parse row \<and> malformed_row tzdb pyfloat tzn fo row)
                   (drop dsl (csv_rows content))) = W"
  shows "\<exists>new_readings.
           temperature_readings (view conn3) = temperature_readings (view conn) @ new_readings \<and>
           length new_readings = N \<and>
           (\<forall>r\<in>set new_readings. quality_flag r = 0) \<and>
           length (filter is_row_warning printed) = W \<and>
           (0 < N \<longrightarrow> committed conn3 = view conn3) \<and>
           (\<exists>f. files (view conn3) = files (view conn) @ [f] \<and>
                sha256 f = content_hash content \<and> path f = csv_path)"
proof -
  define fid where "fid = lastrowid (map file_id (files (view conn)))"
  define parse where "parse = parse_row tzdb pyfloat fid did sid tzn fo"
  define data where "data = drop dsl (csv_rows content)"
  obtain readings warnings where rr: "read_rows parse dsl 1 (csv_rows content) = (readings, warnings)"
    by (cases "read_rows parse dsl 1 (csv_rows content)")
  have "read_rows parse dsl 1 (csv_rows content) = read_rows parse dsl (Suc dsl) data"
    using read_rows_skip[of parse dsl 1 "csv_rows content"] by (simp add: data_def)
  then have rd: "read_rows parse dsl (Suc dsl) data = (readings, warnings)" using rr by simp
  from read_rows_data[of dsl "Suc dsl" parse data] rd
  have R: "length readings = length (filter (is_reading \<circ> parse) data)"
    and Q: "\<forall>r\<in>set readings. \<exists>row\<in>set data. parse row = Reading r"
    and Wn: "length (filter is_row_warning warnings) = length (filter (is_warned \<circ> parse) data)"
    by simp_all
  have eqr: "is_reading \<circ> parse = well_formed_row tzdb pyfloat tzn fo"
    by (rule ext) (simp add: parse_def parse_row_reading)
  have eqw: "is_warned \<circ> parse
               = (\<lambda>row. reaches_parse row \<and> malformed_row tzdb pyfloat tzn fo row)"
    by (rule ext) (simp add: parse_def parse_row_warned)
  have len: "length readings = N" using assms(2) R unfolding eqr data_def by simp
  have wlen: "length (filter is_row_warning warnings) = W"
    using assms(3) Wn unfolding eqw data_def by simp
  have q: "\<forall>r\<in>set readings. quality_flag r = 0"
  proof
    fix r assume "r \<in> set readings"
    then obtain row where "parse row = Reading r" using Q by blast
    then show "quality_flag r = 0" unfolding parse_def using parse_row_quality by blast
  qed
  have c3: "temperature_readings (view conn3) = temperature_readings (view conn) @ readings"
    "filter is_row_warning printed = filter is_row_warning warnings"
    "readings \<noteq> [] \<longrightarrow> committed conn3 = view conn3"
    "\<exists>f. files (view conn3) = files (view conn) @ [f] \<and>
         sha256 f = content_hash content \<and> path f = csv_path"
    using assms(1) rr
    by (auto simp: insert_file_and_readings_def Let_def commit_def fid_def[symmetric]
        parse_def[symmetric] split: if_splits)
  have "0 < N \<longrightarrow> readings \<noteq> []" using len by auto
  then show ?thesis using c3 len wlen q by auto
qed

lemma upsert_sensor_deployment_post:
  assumes "upsert_sensor_deployment conn sid did loc sn = (Inr (), conn2)"
  shows "(\<exists>r\<in>set (sensor_deployments (view conn2)).
            sd_sensor_id r = sid \<and> sd_deployment_id r = did)
       \<and> (\<forall>r\<in>set (sensor_deployments (view conn2)).
            sd_sensor_id r = sid \<and> sd_deployment_id r = did
              \<longrightarrow> location_notes r = loc \<and> sd_notes r = sn)"
proof (cases "list_ex (\<lambda>r. sd_sensor_id r = sid \<and> sd_deployment_id r = did)
                (sensor_deployments (view conn))")
  case True
  define f :: "sensor_deployment_row \<Rightarrow> sensor_deployment_row"
    where "f = (\<lambda>r. if sd_sensor_id r = sid \<and> sd_deployment_id r = did
                   then r\<lparr>location_notes := loc, sd_notes := sn\<rparr> else r)"
  have e: "sensor_deployments (view conn2) = map f (sensor_deployments (view conn))"
    using assms True
    by (auto simp: upsert_sensor_deployment_def Let_def commit_def f_def split: if_splits)
  obtain r0 where r0: "r0 \<in> set (sensor_deployments (view conn))"
    "sd_sensor_id r0 = sid \<and> sd_deployment_id r0 = did"
    using True by (auto simp: list_ex_iff)
  have "f r0 \<in> set (sensor_deployments (view conn2))" using r0(1) by (simp add: e)
  moreover have "sd_sensor_id (f r0) = sid \<and> sd_deployment_id (f r0) = did"
    using r0(2) by (simp add: f_def)
  ultimately have ex: "\<exists>r\<in>set (sensor_deployments (view conn2)).
            sd_sensor_id r = sid \<and> sd_deployment_id r = did"
    by blast
  have al: "\<forall>r\<in>set (sensor_deployments (view conn2)).
            sd_sensor_id r = sid \<and> sd_deployment_id r = did
              \<longrightarrow> location_notes r = loc \<and> sd_notes r = sn"
  proof (intro ballI impI)
    fix r
    assume "r \<in> set (sensor_deployments (view conn2))"
      and m: "sd_sensor_id r = sid \<and> sd_deployment_id r = did"
    then obtain r' where "r = f r'" by (auto simp: e)
    then show "location_notes r = loc \<and> sd_notes r = sn"
      using m by (auto simp: f_def split: if_splits)
  qed
  show ?thesis using ex al by blast
next
  case False
  then have "sensor_deployments (view conn2)
       = sensor_deployments (view conn) @
           [\<lparr>sd_sensor_id = sid, sd_deployment_id = did, location_notes = loc, sd_notes = sn\<rparr>]"
    using assms
    by (auto simp: upsert_sensor_deployment_def Let_def commit_def split: if_splits)
  moreover have "\<forall>r\<in>set (sensor_deployments (view conn)).
      \<not> (sd_sensor_id r = sid \<and> sd_deployment_id r = did)"
    using False by (auto simp: list_ex_iff)
  ultimately show ?thesis by auto
qed

lemma upsert_sensor_deployment_bindable:
  assumes "bindable loc" "bindable sn"
  shows "fst (upsert_sensor_deployment conn sid did loc sn) = Inr ()"
  using assms by (simp add: upsert_sensor_deployment_def Let_def)

lemma insert_file_and_readings_frame:
  assumes "insert_file_and_readings tzdb pyfloat conn csv_path content metadata dsl
             did sid snotes tzn fo = (printed, conn3)"
  shows "sensor_deployments (view conn3) = sensor_deployments (view conn)"
    and "sensors (view conn3) = sensors (view conn)"
  using assms
  by (auto simp: insert_file_and_readings_def Let_def commit_def split: prod.splits if_splits)

subsection \<open>What the sensor resolution does to the sensors\<close>

lemma get_or_create_sensor_found:
  assumes "reg = str_or (map_of metadata ''1-Wire/iButton Registration Number'')
                   (str_or (map_of metadata ''Registration Number'')
                      (str_or (map_of metadata ''Registration'') []))"
    and "reg \<noteq> []"
    and "find (\<lambda>r. registration_number r = reg) (sensors (view conn)) = Some row"
    and "get_or_create_sensor conn metadata lbl = (res, conn1)"
  shows "res = Inr (sensor_id row)"
    and "sensors (view conn1)
         = (if (\<exists>l. lbl = Some l \<and> l \<noteq> []) \<and> (label row = None \<or> label row = Some [])
            then map (\<lambda>r. if sensor_id r = sensor_id row then r\<lparr>label := lbl\<rparr> else r)
                   (sensors (view conn))
            else sensors (view conn))"
  using assms(2,3,4) unfolding assms(1)
  by (auto simp: get_or_create_sensor_def Let_def commit_def split: if_splits option.splits)

lemma get_or_create_sensor_new:
  assumes "reg = str_or (map_of metadata ''1-Wire/iButton Registration Number'')
                   (str_or (map_of metadata ''Registration Number'')
                      (str_or (map_of metadata ''Registration'') []))"
    and "reg \<noteq> []"
    and "find (\<lambda>r. registration_number r = reg) (sensors (view conn)) = None"
    and "get_or_create_sensor conn metadata lbl = (res, conn1)"
  shows "res = Inr (lastrowid (map sensor_id (sensors (view conn))))"
    and "sensors (view conn1)
         = sensors (view conn) @
             [\<lparr>sensor_id = lastrowid (map sensor_id (sensors (view conn))),
               sensor_type = ''ibutton_ds1925'',
               part_number = str_or (map_of metadata ''1-Wire/iButton Part Number'')
                               (str_or (map_of metadata ''Part Number'')
                                  (str_or (map_of metadata ''Part'') [])),
               registration_number = reg, label = lbl\<rparr>]"
  using assms(2,3,4) unfolding assms(1)
  by (auto simp: get_or_create_sensor_def Let_def commit_def split: if_splits option.splits)

lemma upsert_sensor_deployment_committed:
  assumes "upsert_sensor_deployment conn sid did loc sn = (Inr (), conn2)"
  shows "committed conn2 = view conn2"
  using assms
  by (auto simp: upsert_sensor_deployment_def Let_def commit_def split: if_splits)

subsection \<open>The per-sensor entries of the document\<close>

lemma sensor_overrides_entry:
  assumes "map_of kvs ''sensors'' = Some (JObj entries)"
    and "map_of entries l = Some (JObj entry)"
  shows "sensor_overrides (JObj kvs) (Some l)
         = Inr (case map_of entry ''location'' of None \<Rightarrow> JNull | Some v \<Rightarrow> v,
                case map_of entry ''notes'' of None \<Rightarrow> JNull | Some v \<Rightarrow> v)"
  using assms by (simp add: sensor_overrides_def)

lemma sensor_overrides_no_entry:
  assumes "map_of kvs ''sensors'' = Some (JObj entries)"
    and "map_of entries l = None"
  shows "sensor_overrides (JObj kvs) (Some l) = Inr (JNull, JNull)"
  using assms by (simp add: sensor_overrides_def)

lemma sensor_overrides_no_label:
  assumes "map_of kvs ''sensors'' = Some (JObj entries) \<or> map_of kvs ''sensors'' = None"
  shows "sensor_overrides (JObj kvs) None = Inr (JNull, JNull)"
  using assms by (auto simp: sensor_overrides_def)

lemma sensor_overrides_absent:
  assumes "map_of kvs ''sensors'' = None"
  shows "sensor_overrides (JObj kvs) lbl = Inr (JNull, JNull)"
  using assms by (cases lbl) (simp_all add: sensor_overrides_def)

subsection \<open>The default of the metadata document\<close>

lemma ingest_csv_file_default:
  "ingest_csv_file tzdb pyfloat fs conn csv_path did tzn deployment_metadata fo
   = ingest_csv_file tzdb pyfloat fs conn csv_path did tzn
       (if deployment_metadata = JNull then JObj [] else deployment_metadata) fo"
  by (simp add: ingest_csv_file_def)

subsection \<open>The order of the timestamp formats\<close>

lemma convert_groups_error:
  "convert_groups fd gs t = Inl e \<Longrightarrow> \<exists>m. e = ValueError m"
  by (induction fd gs t rule: convert_groups.induct) (auto split: if_splits option.splits)

lemma strptime_error: "strptime s f = Inl e \<Longrightarrow> \<exists>m. e = ValueError m"
  by (auto simp: strptime_def new_datetime_def
      split: list.splits if_splits sum.splits prod.splits dest: convert_groups_error)

lemma strptime_whole:
  "strptime s f = Inr dt \<Longrightarrow> \<exists>found more. re_match (pattern f) s = (found, []) # more"
  by (auto simp: strptime_def split: list.splits if_splits prod.splits)

lemma try_formats_first:
  assumes "i < length fs" "strptime s (fs ! i) = Inr dt"
    and "\<forall>j<i. \<exists>e. strptime s (fs ! j) = Inl e"
  shows "try_formats s fs = Inr (Some dt)"
  using assms
proof (induction fs arbitrary: i)
  case Nil
  then show ?case by simp
next
  case (Cons f fs)
  show ?case
  proof (cases i)
    case 0
    with Cons.prems show ?thesis by simp
  next
    case (Suc k)
    with Cons.prems(3) obtain e where "strptime s f = Inl e" by fastforce
    moreover from this obtain m where "e = ValueError m" using strptime_error by blast
    moreover have "try_formats s fs = Inr (Some dt)"
    proof (rule Cons.IH)
      show "k < length fs" using Cons.prems(1) Suc by simp
      show "strptime s (fs ! k) = Inr dt" using Cons.prems(2) Suc by simp
      show "\<forall>j<k. \<exists>e. strptime s (fs ! j) = Inl e"
        using Cons.prems(3) Suc by fastforce
    qed
    ultimately show ?thesis by simp
  qed
qed

lemma try_formats_none:
  assumes "\<forall>f\<in>set fs. \<exists>e. strptime s f = Inl e"
  shows "try_formats s fs = Inr None"
  using assms
proof (induction fs)
  case Nil
  then show ?case by simp
next
  case (Cons f fs)
  then obtain e where "strptime s f = Inl e" by auto
  moreover from this obtain m where "e = ValueError m" using strptime_error by blast
  ultimately show ?case using Cons by simp
qed

text \<open>
  Claim C5. \<open>local_to_utc\<close> tries the four formats in the documented order: the
  datetime it converts is the one of the first format that \<open>strptime\<close> accepts (all
  earlier formats having raised), that format's expression has matched the string with
  nothing left over, and when every format raises the result is the \<open>ValueError\<close>
  "Could not parse timestamp".
\<close>

theorem local_to_utc_format_order:
  "formats = [''%m/%d/%y %I:%M:%S %p'', ''%m/%d/%Y %I:%M:%S %p'',
              ''%Y-%m-%d %H:%M:%S'', ''%m/%d/%y %H:%M:%S''] \<and>
   (\<forall>i dt. i < length formats \<and> strptime s (formats ! i) = Inr dt \<and>
            (\<forall>j<i. \<exists>e. strptime s (formats ! j) = Inl e)
      \<longrightarrow> parse_local_time s = Inr dt
          \<and> (\<exists>found more. re_match (pattern (formats ! i)) s = (found, []) # more)
          \<and> local_to_utc tzdb s tzn fo = utc_of_datetime tzdb dt tzn fo) \<and>
   ((\<forall>f\<in>set formats. \<exists>e. strptime s f = Inl e)
      \<longrightarrow> local_to_utc tzdb s tzn fo = Inl (ValueError (''Could not parse timestamp: '' @ s)))"
proof (intro conjI allI impI)
  show "formats = [''%m/%d/%y %I:%M:%S %p'', ''%m/%d/%Y %I:%M:%S %p'',
              ''%Y-%m-%d %H:%M:%S'', ''%m/%d/%y %H:%M:%S'']"
    by (simp add: formats_def)
next
  fix i dt
  assume h: "i < length formats \<and> strptime s (formats ! i) = Inr dt \<and>
            (\<forall>j<i. \<exists>e. strptime s (formats ! j) = Inl e)"
  then have t: "try_formats s formats = Inr (Some dt)"
    by (intro try_formats_first[of i]) simp_all
  then show p: "parse_local_time s = Inr dt" by (simp add: parse_local_time_def)
  show "\<exists>found more. re_match (pattern (formats ! i)) s = (found, []) # more"
    using h strptime_whole by blast
  show "local_to_utc tzdb s tzn fo = utc_of_datetime tzdb dt tzn fo"
    by (simp add: local_to_utc_def p)
next
  assume "\<forall>f\<in>set formats. \<exists>e. strptime s f = Inl e"
  then have "try_formats s formats = Inr None" by (rule try_formats_none)
  then show "local_to_utc tzdb s tzn fo = Inl (ValueError (''Could not parse timestamp: '' @ s))"
    by (simp add: local_to_utc_def parse_local_time_def)
qed

theorem local_to_utc_format_order_witness:
  "strptime ''12/31/24 23:59:59'' (formats ! 0)
      = Inl (ValueError ''time data does not match format'') \<and>
   strptime ''12/31/24 23:59:59'' (formats ! 1)
      = Inl (ValueError ''time data does not match format'') \<and>
   strptime ''12/31/24 23:59:59'' (formats ! 2)
      = Inl (ValueError ''time data does not match format'') \<and>
   strptime ''12/31/24 23:59:59'' (formats ! 3)
      = Inr \<lparr>year = 2024, month = 12, day = 31, hour = 23, minute = 59, second = 59\<rparr> \<and>
   parse_local_time ''12/31/24 23:59:59''
      = Inr \<lparr>year = 2024, month = 12, day = 31, hour = 23, minute = 59, second = 59\<rparr> \<and>
   strptime ''31 Dec 2024'' (formats ! 0)
      = Inl (ValueError ''time data does not match format'') \<and>
   strptime ''31 Dec 2024'' (formats ! 1)
      = Inl (ValueError ''time data does not match format'') \<and>
   strptime ''31 Dec 2024'' (formats ! 2)
      = Inl (ValueError ''time data does not match format'') \<and>
   strptime ''31 Dec 2024'' (formats ! 3)
      = Inl (ValueError ''time data does not match format'') \<and>
   local_to_utc no_tzdb ''31 Dec 2024'' ''UTC'' None
      = Inl (ValueError ''Could not parse timestamp: 31 Dec 2024'')"
proof -
  let ?s = "''12/31/24 23:59:59''"
  let ?dt = "\<lparr>year = 2024, month = 12, day = 31, hour = 23, minute = 59, second = 59\<rparr>"
  have f0: "strptime ?s (formats ! 0) = Inl (ValueError ''time data does not match format'')"
    by code_simp
  have f1: "strptime ?s (formats ! 1) = Inl (ValueError ''time data does not match format'')"
    by code_simp
  have f2: "strptime ?s (formats ! 2) = Inl (ValueError ''time data does not match format'')"
    by code_simp
  have f3: "strptime ?s (formats ! 3) = Inr ?dt"
    by code_simp
  have len: "3 < length formats" by (simp add: formats_def)
  have before: "\<forall>j<3. \<exists>e. strptime ?s (formats ! j) = Inl e"
  proof (intro allI impI)
    fix j :: nat assume "j < 3"
    then have "j = 0 \<or> j = 1 \<or> j = 2" by arith
    then show "\<exists>e. strptime ?s (formats ! j) = Inl e" using f0 f1 f2 by auto
  qed
  have g: "strptime ''31 Dec 2024'' (formats ! 0)
             = Inl (ValueError ''time data does not match format'')"
    "strptime ''31 Dec 2024'' (formats ! 1)
             = Inl (ValueError ''time data does not match format'')"
    "strptime ''31 Dec 2024'' (formats ! 2)
             = Inl (ValueError ''time data does not match format'')"
    "strptime ''31 Dec 2024'' (formats ! 3)
             = Inl (ValueError ''time data does not match format'')"
    by code_simp+
  have none: "\<forall>f\<in>set formats. \<exists>e. strptime ''31 Dec 2024'' f = Inl e"
    using g by (simp add: formats_def)
  note thm1 = local_to_utc_format_order [of ?s, THEN conjunct2, THEN conjunct1, rule_format, of 3 ?dt]
  note thm2 = local_to_utc_format_order [of "''31 Dec 2024''" no_tzdb "''UTC''" None,
      THEN conjunct2, THEN conjunct2]
  have "parse_local_time ?s = Inr ?dt" using thm1 len f3 before by blast
  moreover have "local_to_utc no_tzdb ''31 Dec 2024'' ''UTC'' None
      = Inl (ValueError ''Could not parse timestamp: 31 Dec 2024'')"
    using thm2 none by simp
  ultimately show ?thesis using f0 f1 f2 f3 g by blast
qed

subsection \<open>The repeated hour of a fall-back transition\<close>

text \<open>
  Claim C1. With no fixed offset (\<open>None\<close> or the empty string), a string whose local time
  falls in the repeated hour of a fall-back transition of the named zone, be it a
  transition of the zone's table or a yearly change of its rule, is converted with the
  offset in force after the transition: \<open>local_to_utc\<close> returns
  \<open>local_timestamp dt - off_std\<close>, the second occurrence of that local time, which lies at or
  after the transition instant \<open>T\<close>, and not the first occurrence
  \<open>local_timestamp dt - off_dst\<close>, which lies before \<open>T\<close>. The zone is what the time zone
  database holds: its table is well formed (one offset per transition, local transition times
  in ascending order) and its offsets are below a day.
\<close>

theorem local_to_utc_fold_second_occurrence:
  assumes "tzdb timezone_name = Inr z"
    and "parse_local_time s = Inr dt"
    and "fixed_offset = None \<or> fixed_offset = Some []"
    and "length (ttinfos z) = length (trans_utc z)"
    and "sorted (trans_local z True)"
    and "- 86400 < off_std" and "off_dst < 86400"
    and "table_fold z i (local_timestamp dt) off_dst off_std T
         \<or> rule_fold z (year dt) (local_timestamp dt) off_dst off_std T"
  shows "local_to_utc tzdb s timezone_name fixed_offset = Inr (local_timestamp dt - off_std)
       \<and> T \<le> local_timestamp dt - off_std
       \<and> local_timestamp dt - off_dst < T
       \<and> local_to_utc tzdb s timezone_name fixed_offset \<noteq> Inr (local_timestamp dt - off_dst)"
proof -
  have ft: "find_trans z dt True = off_std"
    using assms(8)
  proof
    assume "table_fold z i (local_timestamp dt) off_dst off_std T"
    then show ?thesis by (rule find_trans_table_fold[OF assms(4,5)])
  next
    assume "rule_fold z (year dt) (local_timestamp dt) off_dst off_std T"
    then show ?thesis by (rule find_trans_rule_fold[OF assms(5)])
  qed
  have b: "off_std < off_dst \<and> T + off_std \<le> local_timestamp dt
           \<and> local_timestamp dt < T + off_dst"
    using assms(8)
    by (auto simp: table_fold_def rule_fold_def split: tz_after.splits)
  have "utc_of_datetime tzdb dt timezone_name fixed_offset = aware_timestamp z dt True"
    using assms(1,3) by (auto simp: utc_of_datetime_def)
  also have "\<dots> = Inr (local_timestamp dt - off_std)"
    using assms(6,7) b by (simp add: aware_timestamp_def Let_def ft)
  finally have r: "local_to_utc tzdb s timezone_name fixed_offset
                   = Inr (local_timestamp dt - off_std)"
    by (simp add: local_to_utc_def assms(2))
  show ?thesis using r b by simp
qed

theorem local_to_utc_fold_second_occurrence_witness:
  "local_to_utc excerpt_tzdb ''2024-11-03 01:30:00'' ''America/New_York'' None
     = Inr (1730597400 - (- 18000)) \<and>
   (1730613600::int) \<le> 1730597400 - (- 18000) \<and>
   (1730597400::int) - (- 14400) < 1730613600 \<and>
   local_to_utc excerpt_tzdb ''2040-11-04 01:30:00'' ''America/New_York'' (Some [])
     = Inr (2235605400 - (- 18000))"
proof -
  let ?dt = "\<lparr>year = 2024, month = 11, day = 3, hour = 1, minute = 30, second = 0\<rparr>"
  let ?dt2 = "\<lparr>year = 2040, month = 11, day = 4, hour = 1, minute = 30, second = 0\<rparr>"
  have z: "excerpt_tzdb ''America/New_York'' = Inr new_york_excerpt" by code_simp
  have p: "parse_local_time ''2024-11-03 01:30:00'' = Inr ?dt" by code_simp
  have p2: "parse_local_time ''2040-11-04 01:30:00'' = Inr ?dt2" by code_simp
  have len: "length (ttinfos new_york_excerpt) = length (trans_utc new_york_excerpt)"
    by code_simp
  have srt: "sorted (trans_local new_york_excerpt True)" by code_simp
  have o: "- 86400 < (- 18000 :: int)" "(- 14400 :: int) < 86400" by simp_all
  have lt: "local_timestamp ?dt = 1730597400" by code_simp
  have lt2: "local_timestamp ?dt2 = 2235605400" by code_simp
  have tf: "table_fold new_york_excerpt 1 (local_timestamp ?dt) (- 14400) (- 18000) 1730613600"
    by code_simp
  have rf: "rule_fold new_york_excerpt (year ?dt2) (local_timestamp ?dt2) (- 14400) (- 18000)
              2235621600"
    by code_simp
  note t1 = local_to_utc_fold_second_occurrence[where tzdb = excerpt_tzdb
      and timezone_name = "''America/New_York''" and z = new_york_excerpt
      and s = "''2024-11-03 01:30:00''" and dt = ?dt and fixed_offset = None
      and off_std = "- 18000" and off_dst = "- 14400" and i = 1 and T = 1730613600]
  have a: "local_to_utc excerpt_tzdb ''2024-11-03 01:30:00'' ''America/New_York'' None
     = Inr (1730597400 - (- 18000))
     \<and> (1730613600::int) \<le> 1730597400 - (- 18000)
     \<and> (1730597400::int) - (- 14400) < 1730613600"
    using t1[OF z p _ len srt o disjI1[OF tf]] by (simp add: lt)
  note t2 = local_to_utc_fold_second_occurrence[where tzdb = excerpt_tzdb
      and timezone_name = "''America/New_York''" and z = new_york_excerpt
      and s = "''2040-11-04 01:30:00''" and dt = ?dt2 and fixed_offset = "Some []"
      and off_std = "- 18000" and off_dst = "- 14400" and i = 0 and T = 2235621600]
  have b: "local_to_utc excerpt_tzdb ''2040-11-04 01:30:00'' ''America/New_York'' (Some [])
     = Inr (2235605400 - (- 18000))"
    using t2[OF z p2 _ len srt o disjI2[OF rf]] by (simp add: lt2)
  show ?thesis using a b by simp
qed

subsection \<open>Round trip through a fixed offset\<close>

text \<open>
  Claim C6. For a string that parses to the naive local time \<open>dt\<close> and a fixed offset
  written \<open>+HH:MM\<close> or \<open>-HH:MM\<close>, worth \<open>off\<close> seconds, \<open>local_to_utc\<close> returns the
  integer \<open>local_timestamp dt - off\<close>, so adding the offset to the result gives back the local
  clock reading; and the UTC datetime behind the result, shifted back by the offset with the
  library's own addition, is \<open>dt\<close> field by field. The call returns exactly when the shifted
  date stays within the years 1 to 9999 (\<open>days\<close> is its ordinal); otherwise the datetime
  subtraction raises \<open>OverflowError\<close>.
\<close>

theorem local_to_utc_fixed_offset_roundtrip:
  assumes "parse_local_time s = Inr dt"
    and "sg = CHR ''+'' \<or> sg = CHR ''-''"
    and "is_digit h1" "is_digit h2" "is_digit m1" "is_digit m2"
    and "off = (if sg = CHR ''+'' then 1 else - 1)
                    * ((digit_val h1 * 10 + digit_val h2) * 3600
                       + (digit_val m1 * 10 + digit_val m2) * 60)"
    and "days = (toordinal dt * 86400 + seconds_of_day dt - off) div 86400"
  shows "local_to_utc tzdb s tzn (Some [sg, h1, h2, CHR '':'', m1, m2]) =
           (if 0 < days \<and> days \<le> MAXORDINAL then Inr (local_timestamp dt - off)
            else Inl OverflowError)
         \<and> (0 < days \<and> days \<le> MAXORDINAL \<longrightarrow>
              (\<exists>utc_dt. datetime_sub dt off = Inr utc_dt
                  \<and> timestamp_utc utc_dt = local_timestamp dt - off
                  \<and> datetime_add utc_dt off = Inr dt))"
proof -
  have v: "valid_datetime dt" using assms(1) by (rule parse_local_time_valid)
  note a = apply_fixed_offset_value[OF v unpack_signed_offset[OF assms(3-6)] assms(7,8)]
  have "local_to_utc tzdb s tzn (Some [sg, h1, h2, CHR '':'', m1, m2])
        = apply_fixed_offset dt [sg, h1, h2, CHR '':'', m1, m2]"
    by (simp add: local_to_utc_def assms(1) utc_of_datetime_def)
  then show ?thesis using a by simp
qed


theorem local_to_utc_fixed_offset_roundtrip_witness:
  "parse_local_time ''12/31/24 11:59:59 PM''
     = Inr \<lparr>year = 2024, month = 12, day = 31, hour = 23, minute = 59, second = 59\<rparr> \<and>
   is_digit CHR ''0'' \<and> is_digit CHR ''5'' \<and>
   local_to_utc no_tzdb
      ''12/31/24 11:59:59 PM'' ''America/New_York'' (Some ''-05:00'') = Inr 1735707599 \<and>
   (\<exists>utc_dt. datetime_sub
        \<lparr>year = 2024, month = 12, day = 31, hour = 23, minute = 59, second = 59\<rparr> (- 18000)
          = Inr utc_dt
      \<and> timestamp_utc utc_dt = 1735707599
      \<and> datetime_add utc_dt (- 18000)
          = Inr \<lparr>year = 2024, month = 12, day = 31, hour = 23, minute = 59, second = 59\<rparr>)"
proof -
  let ?dt = "\<lparr>year = 2024, month = 12, day = 31, hour = 23, minute = 59, second = 59\<rparr>"
  have p: "parse_local_time ''12/31/24 11:59:59 PM'' = Inr ?dt" by code_simp
  have d0: "is_digit CHR ''0''" and d5: "is_digit CHR ''5''" by code_simp+
  have sg: "CHR ''-'' = CHR ''+'' \<or> CHR ''-'' = CHR ''-''" by simp
  have off: "(- 18000 :: int) = (if CHR ''-'' = CHR ''+'' then 1 else - 1)
                    * ((digit_val CHR ''0'' * 10 + digit_val CHR ''5'') * 3600
                       + (digit_val CHR ''0'' * 10 + digit_val CHR ''0'') * 60)"
    by code_simp
  have days: "(739252 :: int) = (toordinal ?dt * 86400 + seconds_of_day ?dt - (- 18000)) div 86400"
    by code_simp
  have lt: "local_timestamp ?dt = 1735689599" by code_simp
  have rng: "0 < (739252::int) \<and> 739252 \<le> MAXORDINAL" by code_simp
  from local_to_utc_fixed_offset_roundtrip[OF p sg d0 d5 d0 d0 off days,
      of no_tzdb "''America/New_York''"]
  show ?thesis using p d0 d5 rng by (simp add: lt)
qed

subsection \<open>The first character of the fixed offset\<close>

text \<open>
  Claim C9, as stated, fails. The sign is negative for every first character other than
  \<open>+\<close>, but that first character is always dropped before the hours are read: the
  unsigned \<open>14:00\<close> shifts the local time forward by 4 hours, not by 14, and is not treated
  as \<open>-14:00\<close>.
\<close>

theorem local_to_utc_unsigned_offset_counterexample:
  "''14:00'' \<noteq> [] \<and> hd ''14:00'' \<noteq> CHR ''+'' \<and>
   parse_local_time ''2024-12-31 23:59:59''
     = Inr \<lparr>year = 2024, month = 12, day = 31, hour = 23, minute = 59, second = 59\<rparr> \<and>
   local_timestamp \<lparr>year = 2024, month = 12, day = 31, hour = 23, minute = 59, second = 59\<rparr>
     = 1735689599 \<and>
   local_to_utc no_tzdb ''2024-12-31 23:59:59'' ''UTC'' (Some ''14:00'')
     = Inr (1735689599 + 4 * 3600) \<and>
   local_to_utc no_tzdb ''2024-12-31 23:59:59'' ''UTC'' (Some ''-14:00'')
     = Inr (1735689599 + 14 * 3600) \<and>
   local_to_utc no_tzdb ''2024-12-31 23:59:59'' ''UTC'' (Some ''14:00'')
     \<noteq> local_to_utc no_tzdb ''2024-12-31 23:59:59'' ''UTC'' (Some ''-14:00'')"
  by code_simp

text \<open>
  Claim C9, amended. For every fixed offset whose first character is not \<open>+\<close>,
  \<open>local_to_utc\<close> returns what it returns for the same string with \<open>-\<close> in place of
  that character; \<open>04:00\<close> is treated identically to \<open>-04:00\<close>; and when the text after
  the first character reads as \<open>h\<close> hours and \<open>m\<close> minutes, the result is the local
  timestamp plus \<open>h * 3600 + m * 60\<close> seconds (or \<open>OverflowError\<close> when that leaves
  the years 1 to 9999).
\<close>

lemma py_int_4: "py_int ''4'' = Some 4" "py_int ''04'' = Some 4" "py_int ''00'' = Some 0"
  by code_simp+

theorem local_to_utc_first_character_of_offset:
  assumes "c \<noteq> CHR ''+''"
  shows "local_to_utc tzdb s tzn (Some (c # rest))
           = local_to_utc tzdb s tzn (Some (CHR ''-'' # rest))
       \<and> local_to_utc tzdb s tzn (Some ''04:00'') = local_to_utc tzdb s tzn (Some ''-04:00'')
       \<and> (\<forall>dt h m.
             parse_local_time s = Inr dt \<and>
             unpack_ints (split_on CHR '':'' rest) = Inr (h, m)
             \<longrightarrow> local_to_utc tzdb s tzn (Some (c # rest))
                 = (if 0 < (toordinal dt * 86400 + seconds_of_day dt + (h * 3600 + m * 60))
                            div 86400
                       \<and> (toordinal dt * 86400 + seconds_of_day dt + (h * 3600 + m * 60))
                            div 86400 \<le> MAXORDINAL
                    then Inr (local_timestamp dt + (h * 3600 + m * 60))
                    else Inl OverflowError))"
proof (intro conjI allI impI)
  have "apply_fixed_offset dt (c # rest) = apply_fixed_offset dt (CHR ''-'' # rest)" for dt
    using assms by (simp add: apply_fixed_offset_def)
  then show "local_to_utc tzdb s tzn (Some (c # rest))
           = local_to_utc tzdb s tzn (Some (CHR ''-'' # rest))"
    by (simp add: local_to_utc_def utc_of_datetime_def split: sum.splits)
next
  have "apply_fixed_offset dt ''04:00'' = apply_fixed_offset dt ''-04:00''" for dt
    by (simp add: apply_fixed_offset_def py_int_4)
  then show "local_to_utc tzdb s tzn (Some ''04:00'') = local_to_utc tzdb s tzn (Some ''-04:00'')"
    by (simp add: local_to_utc_def utc_of_datetime_def split: sum.splits)
next
  fix dt h m
  assume a: "parse_local_time s = Inr dt \<and> unpack_ints (split_on CHR '':'' rest) = Inr (h, m)"
  then have v: "valid_datetime dt" by (auto dest: parse_local_time_valid)
  have off: "- (h * 3600 + m * 60) = (if c = CHR ''+'' then 1 else - 1) * (h * 3600 + m * 60)"
    using assms by simp
  have "toordinal dt * 86400 + seconds_of_day dt + (h * 3600 + m * 60)
        = toordinal dt * 86400 + seconds_of_day dt - - (h * 3600 + m * 60)" by simp
  then have days: "(toordinal dt * 86400 + seconds_of_day dt + (h * 3600 + m * 60)) div 86400
     = (toordinal dt * 86400 + seconds_of_day dt - - (h * 3600 + m * 60)) div 86400"
    by (rule arg_cong)
  from apply_fixed_offset_value(1)[OF v conjunct2[OF a] off days]
  show "local_to_utc tzdb s tzn (Some (c # rest))
                 = (if 0 < (toordinal dt * 86400 + seconds_of_day dt + (h * 3600 + m * 60))
                            div 86400
                       \<and> (toordinal dt * 86400 + seconds_of_day dt + (h * 3600 + m * 60))
                            div 86400 \<le> MAXORDINAL
                    then Inr (local_timestamp dt + (h * 3600 + m * 60))
                    else Inl OverflowError)"
    using a by (simp add: local_to_utc_def utc_of_datetime_def)
qed

theorem local_to_utc_first_character_of_offset_witness:
  "CHR ''1'' \<noteq> CHR ''+'' \<and>
   parse_local_time ''2024-12-31 23:59:59''
     = Inr \<lparr>year = 2024, month = 12, day = 31, hour = 23, minute = 59, second = 59\<rparr> \<and>
   unpack_ints (split_on CHR '':'' ''4:00'') = Inr (4, 0) \<and>
   local_to_utc no_tzdb ''2024-12-31 23:59:59'' ''UTC'' (Some ''14:00'')
     = local_to_utc no_tzdb ''2024-12-31 23:59:59'' ''UTC'' (Some ''-4:00'') \<and>
   local_to_utc no_tzdb ''2024-12-31 23:59:59'' ''UTC'' (Some ''14:00'')
     = Inr (1735689599 + (4 * 3600 + 0 * 60))"
proof -
  let ?s = "''2024-12-31 23:59:59''"
  let ?dt = "\<lparr>year = 2024, month = 12, day = 31, hour = 23, minute = 59, second = 59\<rparr>"
  have c: "CHR ''1'' \<noteq> CHR ''+''" by simp
  have p: "parse_local_time ?s = Inr ?dt" by code_simp
  have u: "unpack_ints (split_on CHR '':'' ''4:00'') = Inr (4, 0)" by code_simp
  have lt: "local_timestamp ?dt = 1735689599" by code_simp
  have d: "(toordinal ?dt * 86400 + seconds_of_day ?dt + (4 * 3600 + 0 * 60)) div 86400 = 739252"
    by code_simp
  have r: "0 < (739252::int) \<and> 739252 \<le> MAXORDINAL" by code_simp
  note t = local_to_utc_first_character_of_offset[OF c, of no_tzdb ?s "''UTC''" "''4:00''"]
  have e1: "local_to_utc no_tzdb ?s ''UTC'' (Some ''14:00'')
     = local_to_utc no_tzdb ?s ''UTC'' (Some ''-4:00'')"
    using t by simp
  have e2: "local_to_utc no_tzdb ?s ''UTC'' (Some ''14:00'')
     = Inr (1735689599 + (4 * 3600 + 0 * 60))"
    using t[THEN conjunct2, THEN conjunct2, rule_format, of ?dt 4 0] p u r
    by (simp only: d lt if_True simp_thms)
  show ?thesis using c p u e1 e2 by blast
qed

subsection \<open>The label from the file name\<close>

lemma contains_iff: "contains sep s \<longleftrightarrow> (\<exists>pre post. s = pre @ sep @ post)"
proof (induction s)
  case Nil
  then show ?case by auto
next
  case (Cons x xs)
  show ?case
  proof
    assume "contains sep (x # xs)"
    then consider "prefix sep (x # xs)" | "contains sep xs" by auto
    then show "\<exists>pre post. x # xs = pre @ sep @ post"
    proof cases
      case 1
      then obtain post where "x # xs = sep @ post" by (auto simp: prefix_def)
      then have "x # xs = [] @ sep @ post" by simp
      then show ?thesis by blast
    next
      case 2
      then obtain pre post where "xs = pre @ sep @ post" using Cons.IH by auto
      then have "x # xs = (x # pre) @ sep @ post" by simp
      then show ?thesis by blast
    qed
  next
    assume "\<exists>pre post. x # xs = pre @ sep @ post"
    then obtain pre post where e: "x # xs = pre @ sep @ post" by auto
    show "contains sep (x # xs)"
    proof (cases pre)
      case Nil
      then have "prefix sep (x # xs)" using e by (simp add: prefix_def)
      then show ?thesis by simp
    next
      case (Cons y ys)
      then have "xs = ys @ sep @ post" using e by simp
      then have "contains sep xs" using Cons.IH by blast
      then show ?thesis by simp
    qed
  qed
qed

lemma split_head_prefix: "prefix (split_head sep s) s"
  by (induction s) auto

lemma split_head_decomp: "contains sep s \<Longrightarrow> \<exists>post. s = split_head sep s @ sep @ post"
proof (induction s)
  case Nil
  then show ?case by simp
next
  case (Cons x xs)
  show ?case
  proof (cases "prefix sep (x # xs)")
    case True
    then show ?thesis by (auto simp: prefix_def)
  next
    case False
    then have "contains sep xs" using Cons.prems by simp
    then obtain post where "xs = split_head sep xs @ sep @ post" using Cons.IH by blast
    then have "x # xs = (x # split_head sep xs) @ sep @ post" by simp
    then show ?thesis using False by auto
  qed
qed

lemma split_head_free: "sep \<noteq> [] \<Longrightarrow> \<not> contains sep (split_head sep s)"
proof (induction s)
  case Nil
  then show ?case by simp
next
  case (Cons x xs)
  show ?case
  proof (cases "prefix sep (x # xs)")
    case True
    then show ?thesis using Cons.prems by simp
  next
    case False
    have "\<not> prefix sep (x # split_head sep xs)"
    proof
      assume "prefix sep (x # split_head sep xs)"
      moreover have "prefix (x # split_head sep xs) (x # xs)" by (simp add: split_head_prefix)
      ultimately have "prefix sep (x # xs)" by (rule prefix_order.trans)
      then show False using False by simp
    qed
    then show ?thesis using False Cons by simp
  qed
qed

lemma split_head_id: "\<not> contains sep s \<Longrightarrow> split_head sep s = s"
  by (induction s) auto

lemma not_contains_prefix:
  assumes "\<not> contains sep s" "prefix a s"
  shows "\<not> contains sep a"
proof
  assume "contains sep a"
  then obtain pre post where "a = pre @ sep @ post" using contains_iff by blast
  moreover obtain r where "s = a @ r" using assms(2) by (auto simp: prefix_def)
  ultimately have "s = pre @ sep @ (post @ r)" by simp
  then have "contains sep s" using contains_iff by blast
  then show False using assms(1) by simp
qed

text \<open>
  Claim C8, as stated, fails: the marker is not matched without regard to case. Only the two
  spellings \<open>_iButton_\<close> and \<open>_ibutton_\<close> are looked for, so a name with \<open>_IBUTTON_\<close>
  gives no label.
\<close>

theorem derive_label_marker_counterexample:
  "contains ''_ibutton_'' (py_lower ''Antenna_IBUTTON_Dec2025'') \<and>
   derive_label ''Antenna_IBUTTON_Dec2025'' = None"
  by code_simp

text \<open>
  Claim C8, amended. When the file name (without extension) contains \<open>_iButton_\<close> or
  \<open>_ibutton_\<close>, spelled exactly so, the label is the text that precedes such a marker,
  and that text contains neither spelling; when it contains neither, no label is derived.
\<close>

theorem derive_label_exact_marker:
  "(contains ''_iButton_'' filename \<or> contains ''_ibutton_'' filename \<longrightarrow>
      (\<exists>pre marker post.
          filename = pre @ marker @ post \<and>
          (marker = ''_iButton_'' \<or> marker = ''_ibutton_'') \<and>
          derive_label filename = Some pre \<and>
          \<not> contains ''_iButton_'' pre \<and> \<not> contains ''_ibutton_'' pre)) \<and>
   (\<not> contains ''_iButton_'' filename \<and> \<not> contains ''_ibutton_'' filename \<longrightarrow>
      derive_label filename = None)"
proof (intro conjI impI)
  assume m: "contains ''_iButton_'' filename \<or> contains ''_ibutton_'' filename"
  define h where "h = split_head ''_iButton_'' filename"
  have lab: "derive_label filename = Some (split_head ''_ibutton_'' h)"
    using m by (simp add: derive_label_def h_def)
  have hp: "prefix h filename" unfolding h_def by (rule split_head_prefix)
  have hfree: "\<not> contains ''_iButton_'' h" unfolding h_def by (rule split_head_free) simp
  show "\<exists>pre marker post.
          filename = pre @ marker @ post \<and>
          (marker = ''_iButton_'' \<or> marker = ''_ibutton_'') \<and>
          derive_label filename = Some pre \<and>
          \<not> contains ''_iButton_'' pre \<and> \<not> contains ''_ibutton_'' pre"
  proof (cases "contains ''_ibutton_'' h")
    case True
    define pre where "pre = split_head ''_ibutton_'' h"
    from split_head_decomp[OF True] obtain post where hd: "h = pre @ ''_ibutton_'' @ post"
      unfolding pre_def by blast
    obtain r where "filename = h @ r" using hp by (auto simp: prefix_def)
    then have f: "filename = pre @ ''_ibutton_'' @ (post @ r)" using hd by simp
    have "prefix pre h" unfolding pre_def by (rule split_head_prefix)
    then have "\<not> contains ''_iButton_'' pre" using hfree not_contains_prefix by blast
    moreover have "\<not> contains ''_ibutton_'' pre" unfolding pre_def by (rule split_head_free) simp
    ultimately show ?thesis using f lab unfolding pre_def by blast
  next
    case False
    then have l: "derive_label filename = Some h" using lab by (simp add: split_head_id)
    have c: "contains ''_iButton_'' filename"
    proof (rule ccontr)
      assume n: "\<not> contains ''_iButton_'' filename"
      then have "h = filename" unfolding h_def by (rule split_head_id)
      then show False using False m n by simp
    qed
    from split_head_decomp[OF c] obtain post where "filename = h @ ''_iButton_'' @ post"
      unfolding h_def by blast
    then show ?thesis using l hfree False by blast
  qed
next
  assume "\<not> contains ''_iButton_'' filename \<and> \<not> contains ''_ibutton_'' filename"
  then show "derive_label filename = None" by (simp add: derive_label_def)
qed

theorem derive_label_exact_marker_witness:
  "contains ''_iButton_'' ''Antenna_iButton_Dec2025'' \<and>
   derive_label ''Antenna_iButton_Dec2025'' = Some ''Antenna'' \<and>
   derive_label (path_stem ''data/Antenna_iButton_Dec2025.csv'') = Some ''Antenna'' \<and>
   derive_label ''Antenna_Dec2025'' = None"
proof -
  have c: "contains ''_iButton_'' ''Antenna_iButton_Dec2025''" by code_simp
  have l: "derive_label ''Antenna_iButton_Dec2025'' = Some ''Antenna''" by code_simp
  have s: "path_stem ''data/Antenna_iButton_Dec2025.csv'' = ''Antenna_iButton_Dec2025''"
    by code_simp
  have n: "\<not> contains ''_iButton_'' ''Antenna_Dec2025'' \<and> \<not> contains ''_ibutton_'' ''Antenna_Dec2025''"
    by code_simp
  from derive_label_exact_marker[of "''Antenna_Dec2025''"] n
  have "derive_label ''Antenna_Dec2025'' = None" by blast
  moreover from derive_label_exact_marker[of "''Antenna_iButton_Dec2025''"] c
  obtain pre where "derive_label ''Antenna_iButton_Dec2025'' = Some pre" by blast
  ultimately show ?thesis using c l s by simp
qed

subsection \<open>A file without registration number\<close>

text \<open>
  Claim C4. For a file that exists, whose header has been parsed and whose metadata holds
  none of the three registration-number keys (the long form, \<open>Registration Number\<close>,
  \<open>Registration\<close>), and with per-sensor entries of the metadata document that can be
  read (of the empty document when none is passed), \<open>ingest_csv_file\<close> raises the
  \<open>ValueError\<close> "Registration number not found in metadata" and the connection afterwards
  is the connection before: no row of any table is created or changed.
\<close>

theorem ingest_csv_file_missing_registration:
  assumes "fs csv_path = Some content"
    and "parse_ibutton_header csv_path (csv_rows content) = Inr (metadata, data_start_line)"
    and "sensor_overrides (if deployment_metadata = JNull then JObj [] else deployment_metadata)
           (derive_label (path_stem csv_path)) = Inr ov"
    and "map_of metadata ''1-Wire/iButton Registration Number'' = None"
    and "map_of metadata ''Registration Number'' = None"
    and "map_of metadata ''Registration'' = None"
  shows "ingest_csv_file tzdb pyfloat fs conn csv_path did tzn deployment_metadata fo
         = (Some (ValueError ''Registration number not found in metadata''),
            [Parsing (path_name csv_path)], conn)"
proof -
  obtain loc snotes where ov: "ov = (loc, snotes)" by (cases ov)
  show ?thesis
    using assms(1,2,3)
    by (simp add: ingest_csv_file_def Let_def ov
        get_or_create_sensor_no_registration[OF assms(4,5,6)] split: if_splits)
qed

theorem ingest_csv_file_missing_registration_witness:
  "ingest_csv_file excerpt_tzdb example_float example_fs after_antenna
      ''data/Roof_iButton_Dec2025.csv'' 1 ''America/New_York'' example_metadata None
   = (Some (ValueError ''Registration number not found in metadata''),
      [Parsing ''Roof_iButton_Dec2025.csv''], after_antenna)"
proof -
  let ?content = "\<lparr>content_hash = ''41d0'',
                  csv_rows = [[''Part Number'', ''DS1925L''],
                              [''Date/Time'', ''Unit'', ''Value''],
                              [''12/31/24 11:59:59 PM'', ''C'', ''-7.00'']]\<rparr>"
  have f: "example_fs ''data/Roof_iButton_Dec2025.csv'' = Some ?content" by code_simp
  have h: "parse_ibutton_header ''data/Roof_iButton_Dec2025.csv'' (csv_rows ?content)
           = Inr ([(''Part Number'', ''DS1925L'')], 2)"
    by code_simp
  have o: "sensor_overrides (if example_metadata = JNull then JObj [] else example_metadata)
             (derive_label (path_stem ''data/Roof_iButton_Dec2025.csv''))
           = Inr (JNull, JNull)"
    by code_simp
  have k: "map_of [(''Part Number'', ''DS1925L'')] ''1-Wire/iButton Registration Number'' = None"
    "map_of [(''Part Number'', ''DS1925L'')] ''Registration Number'' = None"
    "map_of [(''Part Number'', ''DS1925L'')] ''Registration'' = None"
    by simp_all
  have n: "path_name ''data/Roof_iButton_Dec2025.csv'' = ''Roof_iButton_Dec2025.csv''"
    by code_simp
  show ?thesis
    using ingest_csv_file_missing_registration[where fs = example_fs
        and csv_path = "''data/Roof_iButton_Dec2025.csv''" and content = ?content
        and metadata = "[(''Part Number'', ''DS1925L'')]" and data_start_line = 2
        and deployment_metadata = example_metadata and ov = "(JNull, JNull)"
        and tzdb = excerpt_tzdb and pyfloat = example_float and conn = after_antenna
        and did = 1 and tzn = "''America/New_York''" and fo = None, OF f h o k]
    by (simp only: n)
qed

subsection \<open>A file whose content hash is already in the store\<close>

text \<open>
  Claim C3. When the content hash of the file at \<open>csv_path\<close> is already recorded,
  whatever the path, \<open>ingest_csv_file\<close> leaves the files table and the readings table as
  they were, however the call ends. When the header, the per-sensor entries, the sensor
  resolution and the association upsert succeed, the call ends without exception, prints
  the skip notice, and the connection afterwards is the connection after the sensor
  resolution and the upsert: both were applied before the hash was checked. What they
  did is then in the store: when a sensor with the file's registration number exists, its
  label is back-filled with the label from the file name if it had none and the file name
  gives one, and the sensors are otherwise unchanged; when no such sensor exists, one is
  created with that label; in both cases the association of that sensor with the
  deployment exists afterwards, holds the location and notes of the document for the
  label, and all of it is committed.
\<close>

theorem ingest_csv_file_duplicate:
  assumes "fs csv_path = Some content"
    and "file_already_ingested conn (content_hash content)"
    and "dm = (if deployment_metadata = JNull then JObj [] else deployment_metadata)"
  shows "(case ingest_csv_file tzdb pyfloat fs conn csv_path did tzn deployment_metadata fo of
            (raised, printed, conn') \<Rightarrow>
              files (view conn') = files (view conn) \<and>
              temperature_readings (view conn') = temperature_readings (view conn)) \<and>
         (\<forall>metadata data_start_line location notes sid conn1 conn2.
            parse_ibutton_header csv_path (csv_rows content) = Inr (metadata, data_start_line) \<and>
            sensor_overrides dm (derive_label (path_stem csv_path)) = Inr (location, notes) \<and>
            get_or_create_sensor conn metadata (derive_label (path_stem csv_path))
              = (Inr sid, conn1) \<and>
            upsert_sensor_deployment conn1 sid did location notes = (Inr (), conn2)
            \<longrightarrow> ingest_csv_file tzdb pyfloat fs conn csv_path did tzn deployment_metadata fo
                = (None, [Parsing (path_name csv_path), AlreadyIngested (path_name csv_path)],
                   conn2)) \<and>
         (\<forall>metadata data_start_line location notes reg row.
            parse_ibutton_header csv_path (csv_rows content) = Inr (metadata, data_start_line) \<and>
            sensor_overrides dm (derive_label (path_stem csv_path)) = Inr (location, notes) \<and>
            bindable location \<and> bindable notes \<and>
            reg = str_or (map_of metadata ''1-Wire/iButton Registration Number'')
                    (str_or (map_of metadata ''Registration Number'')
                       (str_or (map_of metadata ''Registration'') [])) \<and>
            reg \<noteq> [] \<and>
            find (\<lambda>r. registration_number r = reg) (sensors (view conn)) = Some row
            \<longrightarrow> (case ingest_csv_file tzdb pyfloat fs conn csv_path did tzn deployment_metadata fo of
                  (raised, printed, conn') \<Rightarrow>
                    raised = None \<and>
                    printed = [Parsing (path_name csv_path), AlreadyIngested (path_name csv_path)] \<and>
                    sensors (view conn')
                      = (if (\<exists>l. derive_label (path_stem csv_path) = Some l \<and> l \<noteq> [])
                            \<and> (label row = None \<or> label row = Some [])
                         then map (\<lambda>r. if sensor_id r = sensor_id row
                                        then r\<lparr>label := derive_label (path_stem csv_path)\<rparr>
                                        else r)
                                (sensors (view conn))
                         else sensors (view conn)) \<and>
                    (\<exists>r\<in>set (sensor_deployments (view conn')).
                        sd_sensor_id r = sensor_id row \<and> sd_deployment_id r = did) \<and>
                    (\<forall>r\<in>set (sensor_deployments (view conn')).
                        sd_sensor_id r = sensor_id row \<and> sd_deployment_id r = did
                          \<longrightarrow> location_notes r = location \<and> sd_notes r = notes) \<and>
                    committed conn' = view conn')) \<and>
         (\<forall>metadata data_start_line location notes reg.
            parse_ibutton_header csv_path (csv_rows content) = Inr (metadata, data_start_line) \<and>
            sensor_overrides dm (derive_label (path_stem csv_path)) = Inr (location, notes) \<and>
            bindable location \<and> bindable notes \<and>
            reg = str_or (map_of metadata ''1-Wire/iButton Registration Number'')
                    (str_or (map_of metadata ''Registration Number'')
                       (str_or (map_of metadata ''Registration'') [])) \<and>
            reg \<noteq> [] \<and>
            find (\<lambda>r. registration_number r = reg) (sensors (view conn)) = None
            \<longrightarrow> (case ingest_csv_file tzdb pyfloat fs conn csv_path did tzn deployment_metadata fo of
                  (raised, printed, conn') \<Rightarrow>
                    raised = None \<and>
                    printed = [Parsing (path_name csv_path), AlreadyIngested (path_name csv_path)] \<and>
                    sensors (view conn')
                      = sensors (view conn) @
                          [\<lparr>sensor_id = lastrowid (map sensor_id (sensors (view conn))),
                            sensor_type = ''ibutton_ds1925'',
                            part_number = str_or (map_of metadata ''1-Wire/iButton Part Number'')
                                            (str_or (map_of metadata ''Part Number'')
                                               (str_or (map_of metadata ''Part'') [])),
                            registration_number = reg,
                            label = derive_label (path_stem csv_path)\<rparr>] \<and>
                    (\<exists>r\<in>set (sensor_deployments (view conn')).
                        sd_sensor_id r = lastrowid (map sensor_id (sensors (view conn)))
                        \<and> sd_deployment_id r = did) \<and>
                    (\<forall>r\<in>set (sensor_deployments (view conn')).
                        sd_sensor_id r = lastrowid (map sensor_id (sensors (view conn)))
                        \<and> sd_deployment_id r = did
                          \<longrightarrow> location_notes r = location \<and> sd_notes r = notes) \<and>
                    committed conn' = view conn'))"
proof -
  let ?lbl = "derive_label (path_stem csv_path)"
  let ?skip = "[Parsing (path_name csv_path), AlreadyIngested (path_name csv_path)]"
  have nn: "dm \<noteq> JNull" using assms(3) by (auto split: if_splits)
  have eq: "ingest_csv_file tzdb pyfloat fs conn csv_path did tzn deployment_metadata fo
            = ingest_csv_file tzdb pyfloat fs conn csv_path did tzn dm fo"
    unfolding assms(3) by (rule ingest_csv_file_default)
  have dup: "file_already_ingested c (content_hash content)"
    if "files (view c) = files (view conn)" for c :: "'a connection"
    using assms(2) that by (simp add: file_already_ingested_def)
  have frame: "case ingest_csv_file tzdb pyfloat fs conn csv_path did tzn dm fo of
            (raised, printed, conn') \<Rightarrow>
              files (view conn') = files (view conn) \<and>
              temperature_readings (view conn') = temperature_readings (view conn)"
  proof (cases "parse_ibutton_header csv_path (csv_rows content)")
    case (Inl e)
    then show ?thesis using assms(1) nn by (simp add: ingest_csv_file_def)
  next
    case (Inr md)
    obtain metadata dsl where md: "md = (metadata, dsl)" by (cases md)
    show ?thesis
    proof (cases "sensor_overrides dm ?lbl")
      case (Inl e)
      then show ?thesis using assms(1) Inr md nn by (simp add: ingest_csv_file_def)
    next
      case ov: (Inr ov)
      obtain loc snotes where o: "ov = (loc, snotes)" by (cases ov)
      obtain r1 c1 where g: "get_or_create_sensor conn metadata ?lbl = (r1, c1)"
        by (cases "get_or_create_sensor conn metadata ?lbl")
      note f1 = get_or_create_sensor_frame[OF g]
      show ?thesis
      proof (cases r1)
        case (Inl e)
        then show ?thesis using assms(1) Inr md ov o g f1 nn
          by (simp add: ingest_csv_file_def)
      next
        case sid: (Inr sid)
        obtain r2 c2 where u: "upsert_sensor_deployment c1 sid did loc snotes = (r2, c2)"
          by (cases "upsert_sensor_deployment c1 sid did loc snotes")
        note f2 = upsert_sensor_deployment_frame[OF u]
        have d2: "file_already_ingested c2 (content_hash content)"
          by (rule dup) (simp add: f1 f2)
        show ?thesis
          using assms(1) Inr md ov o g sid u f1 f2 d2 nn
          by (cases r2) (simp_all add: ingest_csv_file_def)
      qed
    qed
  qed
  have skip: "ingest_csv_file tzdb pyfloat fs conn csv_path did tzn dm fo = (None, ?skip, conn2)"
    if "parse_ibutton_header csv_path (csv_rows content) = Inr (metadata, dsl)"
      and "sensor_overrides dm ?lbl = Inr (location, snotes)"
      and "get_or_create_sensor conn metadata ?lbl = (Inr sid, conn1)"
      and "upsert_sensor_deployment conn1 sid did location snotes = (Inr (), conn2)"
    for metadata dsl location snotes sid and conn1 conn2 :: "'a connection"
  proof -
    have "files (view conn2) = files (view conn)"
      using that(3,4) get_or_create_sensor_frame(1) upsert_sensor_deployment_frame(1) by metis
    then have "file_already_ingested conn2 (content_hash content)" by (rule dup)
    then show ?thesis
      using assms(1) that nn by (simp add: ingest_csv_file_def)
  qed
  have resolved: "\<exists>conn'. ingest_csv_file tzdb pyfloat fs conn csv_path did tzn dm fo
                     = (None, ?skip, conn') \<and>
           sensors (view conn') = sensors (view conn1) \<and>
           (\<exists>r\<in>set (sensor_deployments (view conn')).
               sd_sensor_id r = sid \<and> sd_deployment_id r = did) \<and>
           (\<forall>r\<in>set (sensor_deployments (view conn')).
               sd_sensor_id r = sid \<and> sd_deployment_id r = did
                 \<longrightarrow> location_notes r = location \<and> sd_notes r = snotes) \<and>
           committed conn' = view conn'"
    if "parse_ibutton_header csv_path (csv_rows content) = Inr (metadata, dsl)"
      and "sensor_overrides dm ?lbl = Inr (location, snotes)"
      and "get_or_create_sensor conn metadata ?lbl = (Inr sid, conn1)"
      and "bindable location" "bindable snotes"
    for metadata dsl location snotes sid and conn1 :: "'a connection"
  proof -
    obtain r2 conn2 where u0: "upsert_sensor_deployment conn1 sid did location snotes = (r2, conn2)"
      by (cases "upsert_sensor_deployment conn1 sid did location snotes")
    have "r2 = Inr ()"
      using upsert_sensor_deployment_bindable[OF that(4,5), of conn1 sid did] u0 by simp
    then have u: "upsert_sensor_deployment conn1 sid did location snotes = (Inr (), conn2)"
      using u0 by simp
    show ?thesis
      using skip[OF that(1,2,3) u] upsert_sensor_deployment_frame(3)[OF u]
        upsert_sensor_deployment_post[OF u] upsert_sensor_deployment_committed[OF u]
      by blast
  qed
  show ?thesis
  proof (intro conjI allI impI)
    show "case ingest_csv_file tzdb pyfloat fs conn csv_path did tzn deployment_metadata fo of
            (raised, printed, conn') \<Rightarrow>
              files (view conn') = files (view conn) \<and>
              temperature_readings (view conn') = temperature_readings (view conn)"
      unfolding eq by (rule frame)
  next
    fix metadata data_start_line location snotes sid conn1 conn2
    assume "parse_ibutton_header csv_path (csv_rows content) = Inr (metadata, data_start_line) \<and>
            sensor_overrides dm ?lbl = Inr (location, snotes) \<and>
            get_or_create_sensor conn metadata ?lbl = (Inr sid, conn1) \<and>
            upsert_sensor_deployment conn1 sid did location snotes = (Inr (), conn2)"
    then show "ingest_csv_file tzdb pyfloat fs conn csv_path did tzn deployment_metadata fo
                = (None, ?skip, conn2)"
      unfolding eq using skip by blast
  next
    fix metadata data_start_line location snotes reg row
    assume a: "parse_ibutton_header csv_path (csv_rows content) = Inr (metadata, data_start_line) \<and>
            sensor_overrides dm ?lbl = Inr (location, snotes) \<and>
            bindable location \<and> bindable snotes \<and>
            reg = str_or (map_of metadata ''1-Wire/iButton Registration Number'')
                    (str_or (map_of metadata ''Registration Number'')
                       (str_or (map_of metadata ''Registration'') [])) \<and>
            reg \<noteq> [] \<and>
            find (\<lambda>r. registration_number r = reg) (sensors (view conn)) = Some row"
    obtain res conn1 where g0: "get_or_create_sensor conn metadata ?lbl = (res, conn1)"
      by (cases "get_or_create_sensor conn metadata ?lbl")
    from a have r: "reg = str_or (map_of metadata ''1-Wire/iButton Registration Number'')
                    (str_or (map_of metadata ''Registration Number'')
                       (str_or (map_of metadata ''Registration'') []))"
      and rn: "reg \<noteq> []"
      and fnd: "find (\<lambda>r. registration_number r = reg) (sensors (view conn)) = Some row"
      by blast+
    note s = get_or_create_sensor_found[OF r rn fnd g0]
    have g: "get_or_create_sensor conn metadata ?lbl = (Inr (sensor_id row), conn1)"
      using g0 s(1) by simp
    from a have "bindable location" "bindable snotes"
      and "parse_ibutton_header csv_path (csv_rows content) = Inr (metadata, data_start_line)"
      and "sensor_overrides dm ?lbl = Inr (location, snotes)"
      by blast+
    from resolved[OF this(3,4) g this(1,2)] s(2)
    show "case ingest_csv_file tzdb pyfloat fs conn csv_path did tzn deployment_metadata fo of
                  (raised, printed, conn') \<Rightarrow>
                    raised = None \<and>
                    printed = ?skip \<and>
                    sensors (view conn')
                      = (if (\<exists>l. ?lbl = Some l \<and> l \<noteq> [])
                            \<and> (label row = None \<or> label row = Some [])
                         then map (\<lambda>r. if sensor_id r = sensor_id row
                                        then r\<lparr>label := ?lbl\<rparr>
                                        else r)
                                (sensors (view conn))
                         else sensors (view conn)) \<and>
                    (\<exists>r\<in>set (sensor_deployments (view conn')).
                        sd_sensor_id r = sensor_id row \<and> sd_deployment_id r = did) \<and>
                    (\<forall>r\<in>set (sensor_deployments (view conn')).
                        sd_sensor_id r = sensor_id row \<and> sd_deployment_id r = did
                          \<longrightarrow> location_notes r = location \<and> sd_notes r = snotes) \<and>
                    committed conn' = view conn'"
      unfolding eq by (auto simp del: map_eq_conv)
  next
    fix metadata data_start_line location snotes reg
    assume a: "parse_ibutton_header csv_path (csv_rows content) = Inr (metadata, data_start_line) \<and>
            sensor_overrides dm ?lbl = Inr (location, snotes) \<and>
            bindable location \<and> bindable snotes \<and>
            reg = str_or (map_of metadata ''1-Wire/iButton Registration Number'')
                    (str_or (map_of metadata ''Registration Number'')
                       (str_or (map_of metadata ''Registration'') [])) \<and>
            reg \<noteq> [] \<and>
            find (\<lambda>r. registration_number r = reg) (sensors (view conn)) = None"
    obtain res conn1 where g0: "get_or_create_sensor conn metadata ?lbl = (res, conn1)"
      by (cases "get_or_create_sensor conn metadata ?lbl")
    from a have r: "reg = str_or (map_of metadata ''1-Wire/iButton Registration Number'')
                    (str_or (map_of metadata ''Registration Number'')
                       (str_or (map_of metadata ''Registration'') []))"
      and rn: "reg \<noteq> []"
      and fnd: "find (\<lambda>r. registration_number r = reg) (sensors (view conn)) = None"
      by blast+
    note s = get_or_create_sensor_new[OF r rn fnd g0]
    have g: "get_or_create_sensor conn metadata ?lbl
             = (Inr (lastrowid (map sensor_id (sensors (view conn)))), conn1)"
      using g0 s(1) by simp
    from a have "bindable location" "bindable snotes"
      and "parse_ibutton_header csv_path (csv_rows content) = Inr (metadata, data_start_line)"
      and "sensor_overrides dm ?lbl = Inr (location, snotes)"
      by blast+
    from resolved[OF this(3,4) g this(1,2)] s(2)
    show "case ingest_csv_file tzdb pyfloat fs conn csv_path did tzn deployment_metadata fo of
                  (raised, printed, conn') \<Rightarrow>
                    raised = None \<and>
                    printed = ?skip \<and>
                    sensors (view conn')
                      = sensors (view conn) @
                          [\<lparr>sensor_id = lastrowid (map sensor_id (sensors (view conn))),
                            sensor_type = ''ibutton_ds1925'',
                            part_number = str_or (map_of metadata ''1-Wire/iButton Part Number'')
                                            (str_or (map_of metadata ''Part Number'')
                                               (str_or (map_of metadata ''Part'') [])),
                            registration_number = reg,
                            label = ?lbl\<rparr>] \<and>
                    (\<exists>r\<in>set (sensor_deployments (view conn')).
                        sd_sensor_id r = lastrowid (map sensor_id (sensors (view conn)))
                        \<and> sd_deployment_id r = did) \<and>
                    (\<forall>r\<in>set (sensor_deployments (view conn')).
                        sd_sensor_id r = lastrowid (map sensor_id (sensors (view conn)))
                        \<and> sd_deployment_id r = did
                          \<longrightarrow> location_notes r = location \<and> sd_notes r = snotes) \<and>
                    committed conn' = view conn'"
      unfolding eq by auto
  qed
qed

theorem ingest_csv_file_duplicate_witness:
  "file_already_ingested after_backup ''9f2c'' \<and>
   sensors (view after_backup)
     = [\<lparr>sensor_id = 1, sensor_type = ''ibutton_ds1925'', part_number = ''DS1925L'',
         registration_number = ''ABC123'', label = None\<rparr>] \<and>
   sensor_deployments (view after_backup)
     = [\<lparr>sd_sensor_id = 1, sd_deployment_id = 1, location_notes = JNull, sd_notes = JNull\<rparr>] \<and>
   (\<exists>conn'.
      ingest_csv_file excerpt_tzdb example_float example_fs after_backup
          ''data/Antenna_iButton_Dec2025.csv'' 1 ''America/New_York'' example_metadata None
        = (None, [Parsing ''Antenna_iButton_Dec2025.csv'',
                  AlreadyIngested ''Antenna_iButton_Dec2025.csv''], conn') \<and>
      files (view conn') = files (view after_backup) \<and>
      temperature_readings (view conn') = temperature_readings (view after_backup) \<and>
      sensors (view conn')
        = [\<lparr>sensor_id = 1, sensor_type = ''ibutton_ds1925'', part_number = ''DS1925L'',
            registration_number = ''ABC123'', label = Some ''Antenna''\<rparr>] \<and>
      committed conn' = view conn')"
proof -
  let ?p = "''data/Antenna_iButton_Dec2025.csv''"
  let ?c = "\<lparr>content_hash = ''9f2c'', csv_rows = antenna_rows\<rparr>"
  let ?md = "[(''Part Number'', ''DS1925L''), (''Registration Number'', ''ABC123'')]"
  let ?row = "\<lparr>sensor_id = 1, sensor_type = ''ibutton_ds1925'', part_number = ''DS1925L'',
         registration_number = ''ABC123'', label = None\<rparr>"
  let ?i = "ingest_csv_file excerpt_tzdb example_float example_fs after_backup
          ?p 1 ''America/New_York'' example_metadata None"
  have f: "example_fs ?p = Some ?c" by code_simp
  have d: "file_already_ingested after_backup (content_hash ?c)" by code_simp
  have m: "example_metadata = (if example_metadata = JNull then JObj [] else example_metadata)"
    by (simp add: example_metadata_def)
  have h: "parse_ibutton_header ?p (csv_rows ?c) = Inr (?md, 3)" by code_simp
  have l: "derive_label (path_stem ?p) = Some ''Antenna''" by code_simp
  have o: "sensor_overrides example_metadata (derive_label (path_stem ?p))
           = Inr (JStr ''mast'', JStr ''north side'')"
    by code_simp
  have b: "bindable (JStr ''mast'')" "bindable (JStr ''north side'')" by simp_all
  have r: "''ABC123'' = str_or (map_of ?md ''1-Wire/iButton Registration Number'')
                    (str_or (map_of ?md ''Registration Number'')
                       (str_or (map_of ?md ''Registration'') []))"
    by code_simp
  have sv: "sensors (view after_backup) = [?row]" by code_simp
  have sd: "sensor_deployments (view after_backup)
     = [\<lparr>sd_sensor_id = 1, sd_deployment_id = 1, location_notes = JNull, sd_notes = JNull\<rparr>]"
    by code_simp
  have fnd: "find (\<lambda>r. registration_number r = ''ABC123'') (sensors (view after_backup))
             = Some ?row"
    unfolding sv by simp
  have n: "path_name ?p = ''Antenna_iButton_Dec2025.csv''" by code_simp
  note t = ingest_csv_file_duplicate[where fs = example_fs and csv_path = ?p and content = ?c
      and conn = after_backup and tzdb = excerpt_tzdb and pyfloat = example_float
      and did = 1 and tzn = "''America/New_York''" and deployment_metadata = example_metadata
      and dm = example_metadata and fo = None, OF f d m]
  obtain raised printed conn' where i: "?i = (raised, printed, conn')" by (cases ?i) auto
  have t1: "files (view conn') = files (view after_backup) \<and>
        temperature_readings (view conn') = temperature_readings (view after_backup)"
    using t[THEN conjunct1] unfolding i by simp
  have t3: "raised = None \<and>
        printed = [Parsing ''Antenna_iButton_Dec2025.csv'',
                   AlreadyIngested ''Antenna_iButton_Dec2025.csv''] \<and>
        sensors (view conn')
          = [\<lparr>sensor_id = 1, sensor_type = ''ibutton_ds1925'', part_number = ''DS1925L'',
              registration_number = ''ABC123'', label = Some ''Antenna''\<rparr>] \<and>
        committed conn' = view conn'"
    using t[THEN conjunct2, THEN conjunct2, THEN conjunct1, rule_format,
        of ?md 3 "JStr ''mast''" "JStr ''north side''" "''ABC123''" ?row]
      h o b r fnd
    unfolding i l n sv by simp
  show ?thesis using d sv sd i t1 t3 by simp
qed

subsection \<open>Malformed rows among well-formed rows\<close>

text \<open>
  Claim C7, as stated, fails. A row whose value is empty has a value that is not a number,
  but the loop passes over a row with a blank timestamp or a blank value before it tries
  to parse it, and prints nothing: a file that is not a duplicate, with two well-formed
  rows and one row with an empty value, gives two readings and no warning, where the
  claim has exactly one.
\<close>

theorem ingest_csv_file_blank_value_counterexample:
  "example_fs ''data/Mast_iButton_Dec2025.csv''
     = Some \<lparr>content_hash = ''c8e1'', csv_rows = mast_rows\<rparr> \<and>
   \<not> file_already_ingested empty_connection ''c8e1'' \<and>
   parse_ibutton_header ''data/Mast_iButton_Dec2025.csv'' mast_rows
     = Inr ([(''Part Number'', ''DS1925L''), (''Registration Number'', ''XYZ789'')], 3) \<and>
   length (filter (well_formed_row excerpt_tzdb example_float ''America/New_York'' None)
             (drop 3 mast_rows)) = 2 \<and>
   filter (malformed_row excerpt_tzdb example_float ''America/New_York'' None) (drop 3 mast_rows)
     = [[''01/01/25 12:00:00 AM'', ''C'', []]] \<and>
   example_float [] = None \<and>
   fst (ingest_csv_file excerpt_tzdb example_float example_fs empty_connection
          ''data/Mast_iButton_Dec2025.csv'' 1 ''America/New_York'' example_metadata None)
     = None \<and>
   length (temperature_readings (view (snd (snd
      (ingest_csv_file excerpt_tzdb example_float example_fs empty_connection
         ''data/Mast_iButton_Dec2025.csv'' 1 ''America/New_York'' example_metadata None)))))
     = 2 \<and>
   length (filter is_row_warning (fst (snd
      (ingest_csv_file excerpt_tzdb example_float example_fs empty_connection
         ''data/Mast_iButton_Dec2025.csv'' 1 ''America/New_York'' example_metadata None))))
     = 0 \<and>
   (0::nat) \<noteq> 1"
  by code_simp

text \<open>
  Claim C7, amended. For a file that is not a duplicate and gets as far as its data block
  (it exists, its header is parsed, the sensor is resolved and the association upserted),
  whose data block holds \<open>N\<close> well-formed rows and \<open>W\<close> malformed rows in which neither
  the timestamp nor the value is blank, \<open>ingest_csv_file\<close> ends without exception, appends
  exactly \<open>N\<close> readings, each with quality flag 0, prints exactly \<open>W\<close> row warnings (one
  for one such row), and records the file; when \<open>N\<close> is not 0 the readings are committed.
  The other rows of the data block (fewer than three fields, or a blank timestamp or
  value), however many, are dropped without a warning.
\<close>

theorem ingest_csv_file_partial_rows:
  assumes "fs csv_path = Some content"
    and "parse_ibutton_header csv_path (csv_rows content) = Inr (metadata, dsl)"
    and "sensor_overrides (if deployment_metadata = JNull then JObj [] else deployment_metadata)
           (derive_label (path_stem csv_path)) = Inr (location, snotes)"
    and "get_or_create_sensor conn metadata (derive_label (path_stem csv_path))
           = (Inr sid, conn1)"
    and "upsert_sensor_deployment conn1 sid did location snotes = (Inr (), conn2)"
    and "\<not> file_already_ingested conn (content_hash content)"
    and "length (filter (well_formed_row tzdb pyfloat tzn fo) (drop dsl (csv_rows content))) = N"
    and "length (filter (\<lambda>row. reaches_parse row \<and> malformed_row tzdb pyfloat tzn fo row)
                   (drop dsl (csv_rows content))) = W"
  shows "\<exists>printed conn3 new_readings.
           ingest_csv_file tzdb pyfloat fs conn csv_path did tzn deployment_metadata fo
             = (None, printed, conn3) \<and>
           temperature_readings (view conn3) = temperature_readings (view conn) @ new_readings \<and>
           length new_readings = N \<and>
           (\<forall>r\<in>set new_readings. quality_flag r = 0) \<and>
           length (filter is_row_warning printed) = W \<and>
           (0 < N \<longrightarrow> committed conn3 = view conn3) \<and>
           (\<exists>f. files (view conn3) = files (view conn) @ [f] \<and>
                sha256 f = content_hash content \<and> path f = csv_path)"
proof -
  have f2: "files (view conn2) = files (view conn)"
    "temperature_readings (view conn2) = temperature_readings (view conn)"
    using get_or_create_sensor_frame[OF assms(4)] upsert_sensor_deployment_frame[OF assms(5)]
    by simp_all
  have nd: "\<not> file_already_ingested conn2 (content_hash content)"
    using assms(6) by (simp add: file_already_ingested_def f2)
  obtain printed conn3 where i: "insert_file_and_readings tzdb pyfloat conn2 csv_path content
      metadata dsl did sid snotes tzn fo = (printed, conn3)"
    by (cases "insert_file_and_readings tzdb pyfloat conn2 csv_path content
      metadata dsl did sid snotes tzn fo")
  have r: "ingest_csv_file tzdb pyfloat fs conn csv_path did tzn deployment_metadata fo
             = (None, Parsing (path_name csv_path) # printed, conn3)"
    using assms(1-5) nd i by (simp add: ingest_csv_file_def split: if_splits)
  from insert_file_and_readings_rows[OF i assms(7,8)] f2
  show ?thesis unfolding r by auto
qed


theorem ingest_csv_file_partial_rows_witness:
  "\<exists>printed conn3 new_readings.
     ingest_csv_file excerpt_tzdb example_float example_fs empty_connection
         ''data/Antenna_iButton_Dec2025.csv'' 1 ''America/New_York'' example_metadata None
       = (None, printed, conn3) \<and>
     temperature_readings (view conn3) = new_readings \<and>
     length new_readings = 2 \<and>
     length (filter is_row_warning printed) = 1 \<and>
     committed conn3 = view conn3"
proof -
  let ?p = "''data/Antenna_iButton_Dec2025.csv''"
  let ?c = "\<lparr>content_hash = ''9f2c'', csv_rows = antenna_rows\<rparr>"
  let ?md = "[(''Part Number'', ''DS1925L''), (''Registration Number'', ''ABC123'')]"
  let ?g = "get_or_create_sensor empty_connection ?md (derive_label (path_stem ?p))"
  let ?u = "upsert_sensor_deployment (snd ?g) 1 1 (JStr ''mast'') (JStr ''north side'')"
  have f: "example_fs ?p = Some ?c" by code_simp
  have h: "parse_ibutton_header ?p (csv_rows ?c) = Inr (?md, 3)" by code_simp
  have o: "sensor_overrides (if example_metadata = JNull then JObj [] else example_metadata)
             (derive_label (path_stem ?p))
           = Inr (JStr ''mast'', JStr ''north side'')"
    by code_simp
  have "fst ?g = Inr 1" by code_simp
  then have g: "?g = (Inr 1, snd ?g)" by (simp add: prod_eq_iff)
  have "fst ?u = Inr ()" by code_simp
  then have u: "?u = (Inr (), snd ?u)" by (simp add: prod_eq_iff)
  have nd: "\<not> file_already_ingested empty_connection (content_hash ?c)" by code_simp
  have w: "length (filter (well_formed_row excerpt_tzdb example_float ''America/New_York'' None)
             (drop 3 (csv_rows ?c))) = 2"
    by code_simp
  have m: "length (filter (\<lambda>row. reaches_parse row \<and>
                       malformed_row excerpt_tzdb example_float ''America/New_York'' None row)
             (drop 3 (csv_rows ?c))) = 1"
    by code_simp
  have e: "temperature_readings (view empty_connection) = []" by code_simp
  from ingest_csv_file_partial_rows[where fs = example_fs and csv_path = ?p and content = ?c
      and metadata = ?md and dsl = 3 and deployment_metadata = example_metadata
      and location = "JStr ''mast''" and snotes = "JStr ''north side''"
      and conn = empty_connection and sid = 1 and did = 1 and N = 2 and W = 1
      and tzdb = excerpt_tzdb and pyfloat = example_float and tzn = "''America/New_York''"
      and fo = None, OF f h o g u nd w m]
  show ?thesis unfolding e by auto
qed

subsection \<open>Precedence between the command line and the metadata document\<close>

text \<open>
  Claim C2, as stated, fails. The time zone name is read from the metadata document first
  and from the command line only when the document has none: with \<open>America/Anchorage\<close>
  on the command line and \<open>America/New_York\<close> in the document, the time zone used is the
  document's.
\<close>

theorem resolve_settings_timezone_counterexample:
  "resolve_settings
     \<lparr>arg_deployment = Some ''Adak_2025Dec'', arg_site = Some ''Adak'',
      arg_timezone = ''America/Anchorage'', arg_notes = None\<rparr>
     example_metadata
   = Inr \<lparr>cfg_deployment_name = JStr ''Adak_2025Dec'', cfg_site_name = JStr ''Adak'',
          cfg_timezone_name = JStr ''America/New_York'', cfg_fixed_offset = JNull,
          cfg_deployment_notes = JNull\<rparr>
   \<and> JStr ''America/New_York'' \<noteq> JStr ''America/Anchorage''"
  by code_simp

text \<open>
  Claim C2, amended. With a metadata document, \<open>main\<close> settles its settings as follows:
  a non-empty deployment name, site name or deployment notes given on the command line is
  the one used; the time zone name is the document's when the document has a non-empty
  one, and the command line's otherwise; the fixed offset is the document's alone. The
  document's per-sensor overrides always apply, and they are looked up under the label
  that the name of the file being ingested gives, not under the label stored for the
  sensor: whenever \<open>ingest_csv_file\<close> gets as far as recording the sensor's deployment,
  with a location and notes that can be bound to a statement (neither a list nor a
  dictionary), it returns without raising, and the row of that sensor and deployment
  holds the location and notes that the document gives for the label of the file name.
  These are the \<open>location\<close> and \<open>notes\<close> of the entry of \<open>sensors\<close> under that label,
  \<open>NULL\<close> for one the entry lacks, and both \<open>NULL\<close> when the document has no entry under
  the label, when the file name gives no label, or when the document has no \<open>sensors\<close>.
\<close>

theorem resolve_settings_precedence:
  "(\<exists>st. resolve_settings a (JObj kvs) = Inr st \<and>
       (\<forall>d. arg_deployment a = Some d \<and> d \<noteq> [] \<longrightarrow> cfg_deployment_name st = JStr d) \<and>
       (\<forall>x. arg_site a = Some x \<and> x \<noteq> [] \<longrightarrow> cfg_site_name st = JStr x) \<and>
       (\<forall>n. arg_notes a = Some n \<and> n \<noteq> [] \<longrightarrow> cfg_deployment_notes st = JStr n) \<and>
       (\<forall>v. map_of kvs ''timezone'' = Some v \<and> truthy v \<longrightarrow> cfg_timezone_name st = v) \<and>
       (map_of kvs ''timezone'' = None \<or> (\<exists>v. map_of kvs ''timezone'' = Some v \<and> \<not> truthy v)
          \<longrightarrow> cfg_timezone_name st = JStr (arg_timezone a)) \<and>
       cfg_fixed_offset st
         = (case map_of kvs ''timezone_fixed_offset'' of None \<Rightarrow> JNull | Some v \<Rightarrow> v)) \<and>
   (\<forall>content metadata dsl location snotes sid conn1.
       fs csv_path = Some content \<and>
       parse_ibutton_header csv_path (csv_rows content) = Inr (metadata, dsl) \<and>
       sensor_overrides (JObj kvs) (derive_label (path_stem csv_path)) = Inr (location, snotes) \<and>
       get_or_create_sensor conn metadata (derive_label (path_stem csv_path)) = (Inr sid, conn1) \<and>
       bindable location \<and> bindable snotes
       \<longrightarrow> (case ingest_csv_file tzdb pyfloat fs conn csv_path did tzn (JObj kvs) fo of
             (raised, printed, conn') \<Rightarrow>
               raised = None \<and>
               (\<exists>r\<in>set (sensor_deployments (view conn')).
                   sd_sensor_id r = sid \<and> sd_deployment_id r = did) \<and>
               (\<forall>r\<in>set (sensor_deployments (view conn')).
                   sd_sensor_id r = sid \<and> sd_deployment_id r = did
                     \<longrightarrow> location_notes r = location \<and> sd_notes r = snotes))) \<and>
   (\<forall>entries l entry.
       map_of kvs ''sensors'' = Some (JObj entries) \<and> map_of entries l = Some (JObj entry)
       \<longrightarrow> sensor_overrides (JObj kvs) (Some l)
           = Inr (case map_of entry ''location'' of None \<Rightarrow> JNull | Some v \<Rightarrow> v,
                  case map_of entry ''notes'' of None \<Rightarrow> JNull | Some v \<Rightarrow> v)) \<and>
   (\<forall>entries l.
       map_of kvs ''sensors'' = Some (JObj entries) \<and> map_of entries l = None
       \<longrightarrow> sensor_overrides (JObj kvs) (Some l) = Inr (JNull, JNull)) \<and>
   (\<forall>entries.
       map_of kvs ''sensors'' = Some (JObj entries)
       \<longrightarrow> sensor_overrides (JObj kvs) None = Inr (JNull, JNull)) \<and>
   (\<forall>lbl.
       map_of kvs ''sensors'' = None
       \<longrightarrow> sensor_overrides (JObj kvs) lbl = Inr (JNull, JNull))"
proof (intro conjI allI impI)
  show "\<exists>st. resolve_settings a (JObj kvs) = Inr st \<and>
       (\<forall>d. arg_deployment a = Some d \<and> d \<noteq> [] \<longrightarrow> cfg_deployment_name st = JStr d) \<and>
       (\<forall>x. arg_site a = Some x \<and> x \<noteq> [] \<longrightarrow> cfg_site_name st = JStr x) \<and>
       (\<forall>n. arg_notes a = Some n \<and> n \<noteq> [] \<longrightarrow> cfg_deployment_notes st = JStr n) \<and>
       (\<forall>v. map_of kvs ''timezone'' = Some v \<and> truthy v \<longrightarrow> cfg_timezone_name st = v) \<and>
       (map_of kvs ''timezone'' = None \<or> (\<exists>v. map_of kvs ''timezone'' = Some v \<and> \<not> truthy v)
          \<longrightarrow> cfg_timezone_name st = JStr (arg_timezone a)) \<and>
       cfg_fixed_offset st
         = (case map_of kvs ''timezone_fixed_offset'' of None \<Rightarrow> JNull | Some v \<Rightarrow> v)"
    by (auto simp: resolve_settings_def py_or_def opt_json_def split: option.splits)
next
  fix content metadata dsl location snotes sid conn1
  assume h: "fs csv_path = Some content \<and>
       parse_ibutton_header csv_path (csv_rows content) = Inr (metadata, dsl) \<and>
       sensor_overrides (JObj kvs) (derive_label (path_stem csv_path)) = Inr (location, snotes) \<and>
       get_or_create_sensor conn metadata (derive_label (path_stem csv_path)) = (Inr sid, conn1) \<and>
       bindable location \<and> bindable snotes"
  obtain r2 conn2 where u: "upsert_sensor_deployment conn1 sid did location snotes = (r2, conn2)"
    by (cases "upsert_sensor_deployment conn1 sid did location snotes")
  have "r2 = Inr ()"
    using upsert_sensor_deployment_bindable[of location snotes conn1 sid did] h u by simp
  then have u': "upsert_sensor_deployment conn1 sid did location snotes = (Inr (), conn2)"
    using u by simp
  note post = upsert_sensor_deployment_post[OF u']
  show "case ingest_csv_file tzdb pyfloat fs conn csv_path did tzn (JObj kvs) fo of
             (raised, printed, conn') \<Rightarrow>
               raised = None \<and>
               (\<exists>r\<in>set (sensor_deployments (view conn')).
                   sd_sensor_id r = sid \<and> sd_deployment_id r = did) \<and>
               (\<forall>r\<in>set (sensor_deployments (view conn')).
                   sd_sensor_id r = sid \<and> sd_deployment_id r = did
                     \<longrightarrow> location_notes r = location \<and> sd_notes r = snotes)"
  proof (cases "file_already_ingested conn2 (content_hash content)")
    case True
    then have "ingest_csv_file tzdb pyfloat fs conn csv_path did tzn (JObj kvs) fo
         = (None, [Parsing (path_name csv_path), AlreadyIngested (path_name csv_path)], conn2)"
      using h u' by (simp add: ingest_csv_file_def)
    then show ?thesis using post by simp
  next
    case False
    obtain printed conn3 where i: "insert_file_and_readings tzdb pyfloat conn2 csv_path content
        metadata dsl did sid snotes tzn fo = (printed, conn3)"
      by (cases "insert_file_and_readings tzdb pyfloat conn2 csv_path content
        metadata dsl did sid snotes tzn fo")
    have "ingest_csv_file tzdb pyfloat fs conn csv_path did tzn (JObj kvs) fo
         = (None, Parsing (path_name csv_path) # printed, conn3)"
      using h u' False i by (simp add: ingest_csv_file_def)
    then show ?thesis using post insert_file_and_readings_frame(1)[OF i] by simp
  qed
next
  fix entries l entry
  assume "map_of kvs ''sensors'' = Some (JObj entries) \<and> map_of entries l = Some (JObj entry)"
  then show "sensor_overrides (JObj kvs) (Some l)
           = Inr (case map_of entry ''location'' of None \<Rightarrow> JNull | Some v \<Rightarrow> v,
                  case map_of entry ''notes'' of None \<Rightarrow> JNull | Some v \<Rightarrow> v)"
    by (simp add: sensor_overrides_entry)
next
  fix entries l
  assume "map_of kvs ''sensors'' = Some (JObj entries) \<and> map_of entries l = None"
  then show "sensor_overrides (JObj kvs) (Some l) = Inr (JNull, JNull)"
    by (simp add: sensor_overrides_no_entry)
next
  fix entries
  assume "map_of kvs ''sensors'' = Some (JObj entries)"
  then show "sensor_overrides (JObj kvs) None = Inr (JNull, JNull)"
    by (simp add: sensor_overrides_no_label)
next
  fix lbl
  assume "map_of kvs ''sensors'' = None"
  then show "sensor_overrides (JObj kvs) lbl = Inr (JNull, JNull)"
    by (rule sensor_overrides_absent)
qed

theorem resolve_settings_precedence_witness:
  "(\<exists>st. resolve_settings
            \<lparr>arg_deployment = Some ''Adak_2025Dec'', arg_site = Some ''Adak'',
             arg_timezone = ''America/Anchorage'', arg_notes = Some ''first visit''\<rparr>
            example_metadata = Inr st \<and>
         cfg_deployment_name st = JStr ''Adak_2025Dec'' \<and>
         cfg_site_name st = JStr ''Adak'' \<and>
         cfg_deployment_notes st = JStr ''first visit'' \<and>
         cfg_timezone_name st = JStr ''America/New_York'' \<and>
         cfg_fixed_offset st = JNull) \<and>
   fst (ingest_csv_file excerpt_tzdb example_float example_fs empty_connection
          ''data/Antenna_iButton_Dec2025.csv'' 1 ''America/New_York'' example_metadata None)
     = None \<and>
   sensor_overrides example_metadata (Some ''Antenna'') = Inr (JStr ''mast'', JStr ''north side'') \<and>
   sensor_deployments (view after_antenna)
     = [\<lparr>sd_sensor_id = 1, sd_deployment_id = 1,
         location_notes = JStr ''mast'', sd_notes = JStr ''north side''\<rparr>] \<and>
   sensors (view after_antenna)
     = [\<lparr>sensor_id = 1, sensor_type = ''ibutton_ds1925'', part_number = ''DS1925L'',
         registration_number = ''ABC123'', label = Some ''Antenna''\<rparr>] \<and>
   derive_label (path_stem ''data/backup.csv'') = None \<and>
   sensor_overrides example_metadata None = Inr (JNull, JNull) \<and>
   fst (ingest_csv_file excerpt_tzdb example_float example_fs after_antenna
          ''data/backup.csv'' 1 ''America/New_York'' example_metadata None)
     = None \<and>
   sensor_deployments (view (snd (snd
      (ingest_csv_file excerpt_tzdb example_float example_fs after_antenna
         ''data/backup.csv'' 1 ''America/New_York'' example_metadata None))))
     = [\<lparr>sd_sensor_id = 1, sd_deployment_id = 1, location_notes = JNull, sd_notes = JNull\<rparr>]"
proof -
  let ?a = "\<lparr>arg_deployment = Some ''Adak_2025Dec'', arg_site = Some ''Adak'',
             arg_timezone = ''America/Anchorage'', arg_notes = Some ''first visit''\<rparr>"
  let ?entry = "[(''location'', JStr ''mast''), (''notes'', JStr ''north side'')]"
  let ?entries = "[(''Antenna'', JObj ?entry)]"
  let ?kvs = "[(''deployment'', JStr ''Test_2025''),
           (''site'', JStr ''TestSite''),
           (''timezone'', JStr ''America/New_York''),
           (''sensors'', JObj ?entries)]"
  let ?p = "''data/Antenna_iButton_Dec2025.csv''"
  let ?q = "''data/backup.csv''"
  let ?c = "\<lparr>content_hash = ''9f2c'', csv_rows = antenna_rows\<rparr>"
  let ?md = "[(''Part Number'', ''DS1925L''), (''Registration Number'', ''ABC123'')]"
  let ?g = "get_or_create_sensor empty_connection ?md (derive_label (path_stem ?p))"
  let ?g2 = "get_or_create_sensor after_antenna ?md (derive_label (path_stem ?q))"
  have em: "example_metadata = JObj ?kvs" by (simp add: example_metadata_def)
  note t = resolve_settings_precedence[where a = ?a and kvs = ?kvs and fs = example_fs
      and csv_path = ?p and conn = empty_connection and tzdb = excerpt_tzdb
      and pyfloat = example_float and did = 1 and tzn = "''America/New_York''" and fo = None]
  note t2 = resolve_settings_precedence[where a = ?a and kvs = ?kvs and fs = example_fs
      and csv_path = ?q and conn = after_antenna and tzdb = excerpt_tzdb
      and pyfloat = example_float and did = 1 and tzn = "''America/New_York''" and fo = None]
  from t[THEN conjunct1] obtain st where st: "resolve_settings ?a (JObj ?kvs) = Inr st"
    and d: "\<forall>d. arg_deployment ?a = Some d \<and> d \<noteq> [] \<longrightarrow> cfg_deployment_name st = JStr d"
    and x: "\<forall>x. arg_site ?a = Some x \<and> x \<noteq> [] \<longrightarrow> cfg_site_name st = JStr x"
    and n: "\<forall>n. arg_notes ?a = Some n \<and> n \<noteq> [] \<longrightarrow> cfg_deployment_notes st = JStr n"
    and z: "\<forall>v. map_of ?kvs ''timezone'' = Some v \<and> truthy v \<longrightarrow> cfg_timezone_name st = v"
    and o: "cfg_fixed_offset st
         = (case map_of ?kvs ''timezone_fixed_offset'' of None \<Rightarrow> JNull | Some v \<Rightarrow> v)"
    by blast
  have s1: "cfg_deployment_name st = JStr ''Adak_2025Dec''" using d by simp
  have s2: "cfg_site_name st = JStr ''Adak''" using x by simp
  have s3: "cfg_deployment_notes st = JStr ''first visit''" using n by simp
  have s4: "cfg_timezone_name st = JStr ''America/New_York''" using z by simp
  have s5: "cfg_fixed_offset st = JNull" using o by simp
  have f: "example_fs ?p = Some ?c" by code_simp
  have h: "parse_ibutton_header ?p (csv_rows ?c) = Inr (?md, 3)" by code_simp
  have lp: "derive_label (path_stem ?p) = Some ''Antenna''" by code_simp
  have ks: "map_of ?kvs ''sensors'' = Some (JObj ?entries)" by simp
  have ov: "sensor_overrides (JObj ?kvs) (Some ''Antenna'')
           = Inr (JStr ''mast'', JStr ''north side'')"
    using t[THEN conjunct2, THEN conjunct2, THEN conjunct1, rule_format,
        of ?entries "''Antenna''" ?entry] ks
    by simp
  have "fst ?g = Inr 1" by code_simp
  then have g: "?g = (Inr 1, snd ?g)" by (simp add: prod_eq_iff)
  have b: "bindable (JStr ''mast'') \<and> bindable (JStr ''north side'')" by simp
  from t[THEN conjunct2, THEN conjunct1, rule_format,
      of ?c ?md 3 "JStr ''mast''" "JStr ''north side''" 1 "snd ?g"]
    f h ov g b
  have "fst (ingest_csv_file excerpt_tzdb example_float example_fs empty_connection
          ?p 1 ''America/New_York'' (JObj ?kvs) None) = None"
    unfolding lp by (auto split: prod.splits)
  then have i: "fst (ingest_csv_file excerpt_tzdb example_float example_fs empty_connection
          ?p 1 ''America/New_York'' example_metadata None) = None"
    by (simp only: em)
  have sd: "sensor_deployments (view after_antenna)
     = [\<lparr>sd_sensor_id = 1, sd_deployment_id = 1,
         location_notes = JStr ''mast'', sd_notes = JStr ''north side''\<rparr>]"
    by code_simp
  have sv: "sensors (view after_antenna)
     = [\<lparr>sensor_id = 1, sensor_type = ''ibutton_ds1925'', part_number = ''DS1925L'',
         registration_number = ''ABC123'', label = Some ''Antenna''\<rparr>]"
    by code_simp
  have f2: "example_fs ?q = Some ?c" by code_simp
  have h2: "parse_ibutton_header ?q (csv_rows ?c) = Inr (?md, 3)" by code_simp
  have lq: "derive_label (path_stem ?q) = None" by code_simp
  have ov2: "sensor_overrides (JObj ?kvs) None = Inr (JNull, JNull)"
    using t2[THEN conjunct2, THEN conjunct2, THEN conjunct2, THEN conjunct2, THEN conjunct1,
        rule_format, of ?entries] ks
    by simp
  have "fst ?g2 = Inr 1" by code_simp
  then have g2: "?g2 = (Inr 1, snd ?g2)" by (simp add: prod_eq_iff)
  from t2[THEN conjunct2, THEN conjunct1, rule_format, of ?c ?md 3 JNull JNull 1 "snd ?g2"]
    f2 h2 ov2 g2
  have "fst (ingest_csv_file excerpt_tzdb example_float example_fs after_antenna
          ?q 1 ''America/New_York'' (JObj ?kvs) None) = None"
    unfolding lq by (auto split: prod.splits)
  then have i2: "fst (ingest_csv_file excerpt_tzdb example_float example_fs after_antenna
          ?q 1 ''America/New_York'' example_metadata None) = None"
    by (simp only: em)
  have sd2: "sensor_deployments (view (snd (snd
      (ingest_csv_file excerpt_tzdb example_float example_fs after_antenna
         ?q 1 ''America/New_York'' example_metadata None))))
     = [\<lparr>sd_sensor_id = 1, sd_deployment_id = 1, location_notes = JNull, sd_notes = JNull\<rparr>]"
    by code_simp
  show ?thesis
    using st s1 s2 s3 s4 s5 i ov sd sv lq ov2 i2 sd2 unfolding em by blast
qed

subsection \<open>The fixed offset takes precedence over the time zone\<close>

text \<open>
  Claim C10. Whenever a non-empty fixed offset is supplied, the result of
  \<open>local_to_utc\<close> (a value or an exception) does not depend on the time zone name, nor
  on what the time zone database holds for it: two calls that differ only there return
  the same.
\<close>

theorem local_to_utc_fixed_offset_ignores_timezone:
  assumes "fixed_offset \<noteq> []"
  shows "local_to_utc tzdb1 local_time_str timezone_name1 (Some fixed_offset)
         = local_to_utc tzdb2 local_time_str timezone_name2 (Some fixed_offset)"
proof -
  obtain c cs where "fixed_offset = c # cs"
    using assms by (cases fixed_offset) auto
  then show ?thesis
    by (simp add: local_to_utc_def utc_of_datetime_def split: sum.splits)
qed

theorem local_to_utc_fixed_offset_ignores_timezone_witness:
  "''-04:00'' \<noteq> [] \<and>
   local_to_utc no_tzdb
       ''12/31/24 11:59:59 PM'' ''America/New_York'' (Some ''-04:00'')
   = local_to_utc excerpt_tzdb
       ''12/31/24 11:59:59 PM'' ''Europe/Berlin'' (Some ''-04:00'')"
  using local_to_utc_fixed_offset_ignores_timezone [of "''-04:00''"]
  by simp

end
